theory Spec2Isabelle
  imports Complex_Main
begin

section \<open>Data model of the sliding-window estimator\<close>

text \<open>
  The embedded file is \<^verbatim>\<open>src/odometry/lidar_odometry.cc\<close>. Every \<^verbatim>\<open>double\<close> of the
  source is a \<^typ>\<open>real\<close> here: rounding, infinities and NaN are outside the model, and
  equalities between values are equalities of real numbers. A \<^verbatim>\<open>std::deque\<close> or
  \<^verbatim>\<open>std::vector\<close> is a list with the front at the head. The file is compiled with
  \<^verbatim>\<open>_GLIBCXX_ASSERTIONS\<close> (line 3), so \<^verbatim>\<open>front()\<close>, \<^verbatim>\<open>back()\<close> and \<^verbatim>\<open>operator[]\<close>
  outside the container abort; a failed glog \<^verbatim>\<open>CHECK\<close> aborts as well. Both are values
  of the type \<open>abort\<close>, returned on the left of a sum.
\<close>

datatype abort = CheckFailed | OutOfRange

subsection \<open>Eigen vectors and quaternions\<close>

text \<open>
  \<^verbatim>\<open>Eigen::Vector3d\<close> with its component-wise sum, difference, negation and product
  with a scalar; \<^verbatim>\<open>v * c\<close>, \<^verbatim>\<open>c * v\<close> are \<open>c *\<^sub>R v\<close> and \<^verbatim>\<open>v / c\<close> is \<open>v /\<^sub>R c\<close>.
\<close>

datatype Vector3d = Vec3 real real real

instantiation Vector3d :: real_vector
begin

fun plus_Vector3d :: "Vector3d \<Rightarrow> Vector3d \<Rightarrow> Vector3d" where
  "Vec3 a b c + Vec3 d e f = Vec3 (a + d) (b + e) (c + f)"

fun minus_Vector3d :: "Vector3d \<Rightarrow> Vector3d \<Rightarrow> Vector3d" where
  "Vec3 a b c - Vec3 d e f = Vec3 (a - d) (b - e) (c - f)"

fun uminus_Vector3d :: "Vector3d \<Rightarrow> Vector3d" where
  "- Vec3 a b c = Vec3 (- a) (- b) (- c)"

definition zero_Vector3d :: Vector3d where
  "0 = Vec3 0 0 0"

fun scaleR_Vector3d :: "real \<Rightarrow> Vector3d \<Rightarrow> Vector3d" where
  "r *\<^sub>R Vec3 a b c = Vec3 (r * a) (r * b) (r * c)"

instance
proof
  fix a b c :: Vector3d and r s :: real
  show "a + b + c = a + (b + c)" by (cases a; cases b; cases c) simp
  show "a + b = b + a" by (cases a; cases b) simp
  show "0 + a = a" by (cases a) (simp add: zero_Vector3d_def)
  show "- a + a = 0" by (cases a) (simp add: zero_Vector3d_def)
  show "a - b = a + - b" by (cases a; cases b) simp
  show "r *\<^sub>R (a + b) = r *\<^sub>R a + r *\<^sub>R b" by (cases a; cases b) (simp add: algebra_simps)
  show "(r + s) *\<^sub>R a = r *\<^sub>R a + s *\<^sub>R a" by (cases a) (simp add: algebra_simps)
  show "r *\<^sub>R s *\<^sub>R a = (r * s) *\<^sub>R a" by (cases a) simp
  show "1 *\<^sub>R a = a" by (cases a) simp
qed

end

fun squaredNorm :: "Vector3d \<Rightarrow> real" where
  "squaredNorm (Vec3 a b c) = a * a + b * b + c * c"

text \<open>
  \<^verbatim>\<open>normalized()\<close> of Eigen divides by the norm when the squared norm is positive and
  returns the vector as it is otherwise.
\<close>

definition normalized :: "Vector3d \<Rightarrow> Vector3d" where
  "normalized v = (if squaredNorm v > 0 then v /\<^sub>R sqrt (squaredNorm v) else v)"

fun cross :: "Vector3d \<Rightarrow> Vector3d \<Rightarrow> Vector3d" where
  "cross (Vec3 a b c) (Vec3 d e f) = Vec3 (b * f - c * e) (c * d - a * f) (a * e - b * d)"

text \<open>
  \<^verbatim>\<open>Eigen::Quaterniond\<close>, written \<open>Quat w x y z\<close>. \<open>q * r\<close> is the Hamilton product,
  \<open>1\<close> is \<^verbatim>\<open>Quaterniond::Identity()\<close>, and \<open>transformVector q v\<close> is the product
  \<^verbatim>\<open>q * v\<close> of a quaternion with a vector, by Eigen's formula
  \<^verbatim>\<open>uv = 2 * vec(q).cross(v); v + w * uv + vec(q).cross(uv)\<close>.
\<close>

datatype Quaterniond = Quat real real real real

instantiation Quaterniond :: "{one, times}"
begin

definition one_Quaterniond :: Quaterniond where
  "1 = Quat 1 0 0 0"

fun times_Quaterniond :: "Quaterniond \<Rightarrow> Quaterniond \<Rightarrow> Quaterniond" where
  "Quat aw ax ay az * Quat bw bx by bz =
     Quat (aw * bw - ax * bx - ay * by - az * bz)
          (aw * bx + ax * bw + ay * bz - az * by)
          (aw * by + ay * bw + az * bx - ax * bz)
          (aw * bz + az * bw + ax * by - ay * bx)"

instance ..

end

fun transformVector :: "Quaterniond \<Rightarrow> Vector3d \<Rightarrow> Vector3d" where
  "transformVector (Quat w x y z) v =
     (let uv = 2 *\<^sub>R cross (Vec3 x y z) v
      in v + w *\<^sub>R uv + cross (Vec3 x y z) uv)"

subsection \<open>Messages, states and the estimator\<close>

text \<open>
  The structs are declared in headers that are not part of the embedded file; their fields
  are the ones the source file reads and writes. Field names that two structs share carry
  a prefix: \<open>d_timestamp\<close> of an \<^verbatim>\<open>ImuData\<close>, \<open>i_timestamp\<close>, \<open>i_pos\<close>, \<open>i_rot\<close> of
  an \<^verbatim>\<open>ImuState\<close>, \<open>s_timestamp\<close> of a \<^verbatim>\<open>Surfel\<close>.
\<close>

record Point =
  xyz :: Vector3d
  time :: real

record ImuData =
  d_timestamp :: real
  linear_acceleration :: Vector3d
  angular_velocity :: Vector3d

record ImuState =
  i_timestamp :: real
  acc :: Vector3d
  gyr :: Vector3d
  i_pos :: Vector3d
  i_rot :: Quaterniond

text \<open>
  Modelled from the spec: the declaration of \<^verbatim>\<open>SampleState\<close> (in
  \<^verbatim>\<open>odometry/lidar_odometry.h\<close>) is missing. The spec gives its fields and says that
  the 12-element block \<^verbatim>\<open>data_cor\<close> is the co-located tuple
  \<^verbatim>\<open>(rot_cor, pos_cor, ba_cor, bg_cor)\<close>, with index spans 0..3, 3..6, 6..9 and 9..12;
  the source agrees on the size (\<^verbatim>\<open>SubsetParameterization(12, {3, 4, 5})\<close>) and reads
  \<^verbatim>\<open>rot_cor\<close> and \<^verbatim>\<open>pos_cor\<close> as views. The four slots are four fields here and
  \<open>data_cor\<close> is the block they form.
\<close>

record SampleState =
  timestamp :: real
  pos :: Vector3d
  rot :: Quaterniond
  ba :: Vector3d
  bg :: Vector3d
  grav :: Vector3d
  rot_cor :: Vector3d
  pos_cor :: Vector3d
  ba_cor :: Vector3d
  bg_cor :: Vector3d

fun coeffs :: "Vector3d \<Rightarrow> real list" where
  "coeffs (Vec3 a b c) = [a, b, c]"

definition data_cor :: "SampleState \<Rightarrow> real list" where
  "data_cor s = coeffs (rot_cor s) @ coeffs (pos_cor s) @ coeffs (ba_cor s) @ coeffs (bg_cor s)"

record Surfel =
  s_timestamp :: real

record SurfelCorrespondence =
  s1 :: Surfel
  s2 :: Surfel

text \<open>
  Modelled from the spec: the declaration of the configuration struct is missing; the
  spec lists these parameters, all scalars.
\<close>

record Config =
  imu_rate :: real
  gravity_norm :: real
  sample_dt :: real
  sweep_duration :: real
  sliding_window_duration :: real

text \<open>
  The members of \<^verbatim>\<open>LidarOdometry\<close> that the embedded functions use, together with the
  two function-local statics \<^verbatim>\<open>sync_done\<close> and \<^verbatim>\<open>init_sld_win\<close>.
\<close>

record LidarOdometry =
  config :: Config
  imu_buff :: "ImuData list"
  points_buff :: "Point list"
  imu_states_sld_win :: "ImuState list"
  sample_states_sld_win :: "SampleState list"
  surfels_sld_win :: "Surfel list"
  sync_done :: bool
  init_sld_win :: bool

section \<open>Ingest\<close>

text \<open>\<^verbatim>\<open>LidarOdometry::AddImuData\<close> (lines 555-559): copy the message, push it back.\<close>

definition AddImuData :: "LidarOdometry \<Rightarrow> ImuData \<Rightarrow> LidarOdometry" where
  "AddImuData this msg = (let msg_new = msg in this\<lparr>imu_buff := imu_buff this @ [msg_new]\<rparr>)"

text \<open>
  The ingest loop of \<^verbatim>\<open>LidarOdometry::AddLidarScan\<close> (lines 447-454). The extrinsic
  transform \<open>ext\<close> of a position and the filter \<open>rejected\<close> (range limits and blind box)
  depend on configuration values whose types are not in the file; they are parameters.
  The \<^verbatim>\<open>CHECK\<close> compares each point with the back of the buffer, before the filter.
\<close>

fun ingest_points :: "(Vector3d \<Rightarrow> Vector3d) \<Rightarrow> (Vector3d \<Rightarrow> bool) \<Rightarrow> Point list \<Rightarrow> Point list
    \<Rightarrow> abort + Point list" where
  "ingest_points ext rejected [] buff = Inr buff"
| "ingest_points ext rejected (p # msg) buff =
     (let pt = p\<lparr>xyz := ext (xyz p)\<rparr>
      in if \<not> (buff = [] \<or> time pt \<ge> time (last buff)) then Inl CheckFailed
         else if rejected (xyz pt) then ingest_points ext rejected msg buff
         else ingest_points ext rejected msg (buff @ [pt]))"

section \<open>Sweep builder\<close>

text \<open>
  \<^verbatim>\<open>BuildSweep\<close> (lines 104-111). The first statement reads \<^verbatim>\<open>points_buff.front()\<close>,
  which aborts on an empty buffer; the loop then moves points from the front of the buffer
  to the back of the sweep while the front is earlier than \<open>sweep_endtime\<close>. The result is
  the pair (sweep, remaining buffer).
\<close>

fun drain_sweep :: "real \<Rightarrow> Point list \<Rightarrow> Point list \<Rightarrow> Point list \<times> Point list" where
  "drain_sweep sweep_endtime [] sweep = (sweep, [])"
| "drain_sweep sweep_endtime (p # buff) sweep =
     (if time p < sweep_endtime then drain_sweep sweep_endtime buff (sweep @ [p])
      else (sweep, p # buff))"

definition BuildSweep :: "Point list \<Rightarrow> real \<Rightarrow> abort + (Point list \<times> Point list)" where
  "BuildSweep buff sweep_endtime =
     (if buff = [] then Inl OutOfRange
      else Inr (drain_sweep sweep_endtime buff []))"

text \<open>
  The caller's lines 471-473: the end time is reset to the timestamp of the latest sample
  state before the sweep is built.
\<close>

definition build_sweep_call :: "LidarOdometry \<Rightarrow> abort + (Point list \<times> LidarOdometry)" where
  "build_sweep_call this =
     (if sample_states_sld_win this = [] then Inl OutOfRange
      else let sweep_endtime = timestamp (last (sample_states_sld_win this))
           in case BuildSweep (points_buff this) sweep_endtime of
                Inl e \<Rightarrow> Inl e
              | Inr (sweep, buff) \<Rightarrow> Inr (sweep, this\<lparr>points_buff := buff\<rparr>))"

section \<open>Head-sync\<close>




section \<open>Predictor\<close>

text \<open>
  \<^verbatim>\<open>LidarOdometry::PredictImuStatesAndSampleStates\<close> (lines 328-413), in the three
  blocks the source numbers. \<open>Exp\<close> (of \<^verbatim>\<open>common/utils.h\<close>), Eigen's \<open>slerp\<close> and the
  object \<open>new_ss\<close> that \<^verbatim>\<open>new SampleState\<close> constructs are not in the file and are
  parameters. \<open>PredictImuStates\<close> is the function up to the end of block 2.
\<close>

text \<open>One iteration of the initialization loop, for \<open>i = 0\<close> and \<open>i = 1\<close>.\<close>

definition init_imu_state :: "(Vector3d \<Rightarrow> Quaterniond) \<Rightarrow> real \<Rightarrow> nat
    \<Rightarrow> ImuData list \<times> ImuState list \<Rightarrow> abort + (ImuData list \<times> ImuState list)" where
  "init_imu_state Exp dt i bw =
     (case bw of
        ([], win) \<Rightarrow> Inl OutOfRange
      | (imu_msg # buff, win) \<Rightarrow>
          if i = 0 then
            Inr (buff, win @ [\<lparr>i_timestamp = d_timestamp imu_msg,
                               acc = linear_acceleration imu_msg,
                               gyr = angular_velocity imu_msg,
                               i_pos = 0, i_rot = 1\<rparr>])
          else if win = [] then Inl OutOfRange
          else
            Inr (buff, win @ [\<lparr>i_timestamp = d_timestamp imu_msg,
                               acc = linear_acceleration imu_msg,
                               gyr = angular_velocity imu_msg,
                               i_pos = 0,
                               i_rot = Exp (dt *\<^sub>R ((gyr (last win) + angular_velocity imu_msg) /\<^sub>R 2))\<rparr>]))"

definition first_sample_state :: "SampleState \<Rightarrow> real \<Rightarrow> ImuState \<Rightarrow> SampleState" where
  "first_sample_state new_ss g front =
     new_ss\<lparr>timestamp := i_timestamp front,
            ba := 0, bg := 0,
            grav := (- g) *\<^sub>R normalized (acc front),
            rot := i_rot front,
            pos := i_pos front\<rparr>"

definition init_window :: "(Vector3d \<Rightarrow> Quaterniond) \<Rightarrow> SampleState \<Rightarrow> real \<Rightarrow> LidarOdometry
    \<Rightarrow> abort + LidarOdometry" where
  "init_window Exp new_ss dt this =
     (case init_imu_state Exp dt 0 (imu_buff this, imu_states_sld_win this) of
        Inl e \<Rightarrow> Inl e
      | Inr bw0 \<Rightarrow>
          (case init_imu_state Exp dt 1 bw0 of
             Inl e \<Rightarrow> Inl e
           | Inr (buff, win) \<Rightarrow>
               Inr (this\<lparr>imu_buff := buff,
                         imu_states_sld_win := win,
                         sample_states_sld_win := sample_states_sld_win this
                           @ [first_sample_state new_ss (gravity_norm (config this)) (hd win)],
                         init_sld_win := True\<rparr>)))"

text \<open>
  Block 2: one IMU state per buffered sample, from the last two states of the window,
  until the buffer is empty or a state reaches \<open>end_time\<close>. \<^verbatim>\<open>imu_states_sld_win_[size - 2]\<close>
  is out of range when the window holds fewer than two states.
\<close>

definition predict_state :: "(Vector3d \<Rightarrow> Quaterniond) \<Rightarrow> real \<Rightarrow> Vector3d \<Rightarrow> Vector3d \<Rightarrow> Vector3d
    \<Rightarrow> ImuState \<Rightarrow> ImuState \<Rightarrow> ImuData \<Rightarrow> ImuState" where
  "predict_state Exp dt ba0 bg0 grav0 prev2 prev1 imu_msg =
     \<lparr>i_timestamp = d_timestamp imu_msg,
      acc = linear_acceleration imu_msg,
      gyr = angular_velocity imu_msg,
      i_pos = dt *\<^sub>R (dt *\<^sub>R (transformVector (i_rot prev2) (acc prev2 - ba0) + grav0))
              + 2 *\<^sub>R i_pos prev1 - i_pos prev2,
      i_rot = i_rot prev1 * Exp (dt *\<^sub>R ((gyr prev1 + angular_velocity imu_msg) /\<^sub>R 2 - bg0))\<rparr>"

fun predict_imu_states :: "(Vector3d \<Rightarrow> Quaterniond) \<Rightarrow> real \<Rightarrow> Vector3d \<Rightarrow> Vector3d \<Rightarrow> Vector3d
    \<Rightarrow> real \<Rightarrow> ImuData list \<Rightarrow> ImuState list \<Rightarrow> abort + (ImuData list \<times> ImuState list)" where
  "predict_imu_states Exp dt ba0 bg0 grav0 end_time [] win = Inr ([], win)"
| "predict_imu_states Exp dt ba0 bg0 grav0 end_time (imu_msg # buff) win =
     (let size = length win
      in if size < 2 then Inl OutOfRange
         else
           let imu_state = predict_state Exp dt ba0 bg0 grav0
                             (win ! (size - 2)) (win ! (size - 1)) imu_msg
           in if i_timestamp imu_state \<ge> end_time then Inr (buff, win @ [imu_state])
              else predict_imu_states Exp dt ba0 bg0 grav0 end_time buff (win @ [imu_state]))"

definition PredictImuStates :: "(Vector3d \<Rightarrow> Quaterniond) \<Rightarrow> SampleState \<Rightarrow> LidarOdometry \<Rightarrow> real
    \<Rightarrow> abort + LidarOdometry" where
  "PredictImuStates Exp new_ss this end_time =
     (if length (imu_buff this) < 2 then Inl CheckFailed
      else
        let dt = 1 / imu_rate (config this)
        in case (if \<not> init_sld_win this then init_window Exp new_ss dt this else Inr this) of
             Inl e \<Rightarrow> Inl e
           | Inr this1 \<Rightarrow>
               if sample_states_sld_win this1 = [] then Inl OutOfRange
               else
                 let latest = last (sample_states_sld_win this1)
                 in (case predict_imu_states Exp dt (ba latest) (bg latest) (grav latest)
                            end_time (imu_buff this1) (imu_states_sld_win this1) of
                       Inl e \<Rightarrow> Inl e
                     | Inr (buff, win) \<Rightarrow>
                         Inr (this1\<lparr>imu_buff := buff, imu_states_sld_win := win\<rparr>)))"

text \<open>
  Block 3: from the timestamp of the latest sample state, one new sample state every
  \<open>sample_dt\<close> while the timestamp is earlier than \<open>end_time\<close>, interpolated between the
  two IMU states around it. \<^verbatim>\<open>std::lower_bound\<close> on a window sorted by timestamp is the
  index of the first state not earlier than \<open>v\<close>. The loop does not end when \<open>sample_dt\<close>
  is zero or negative and no \<^verbatim>\<open>CHECK\<close> fails; then the result is \<open>None\<close>.
\<close>

definition lower_bound :: "ImuState list \<Rightarrow> real \<Rightarrow> nat" where
  "lower_bound imu_states v = length (takeWhile (\<lambda>a. i_timestamp a < v) imu_states)"

definition interpolated_sample :: "(real \<Rightarrow> Quaterniond \<Rightarrow> Quaterniond \<Rightarrow> Quaterniond) \<Rightarrow> SampleState
    \<Rightarrow> Vector3d \<Rightarrow> Vector3d \<Rightarrow> Vector3d \<Rightarrow> ImuState list \<Rightarrow> real \<Rightarrow> abort + SampleState" where
  "interpolated_sample slerp new_ss ba0 bg0 grav0 win t =
     (let idx = lower_bound win t
      in if idx = 0 then Inl CheckFailed
         else if idx = length win then Inl CheckFailed
         else
           let factor = (t - i_timestamp (win ! (idx - 1)))
                          / (i_timestamp (win ! idx) - i_timestamp (win ! (idx - 1)));
               ss = new_ss\<lparr>timestamp := t, ba := ba0, bg := bg0, grav := grav0,
                           rot := slerp factor (i_rot (win ! (idx - 1))) (i_rot (win ! idx)),
                           pos := (1 - factor) *\<^sub>R i_pos (win ! (idx - 1))
                                  + factor *\<^sub>R i_pos (win ! idx)\<rparr>
           in if \<not> factor \<ge> 0 then Inl CheckFailed
              else if \<not> factor \<le> 1 then Inl CheckFailed
              else Inr ss)"

partial_function (option) add_sample_states :: "(real \<Rightarrow> abort + SampleState) \<Rightarrow> real \<Rightarrow> real
    \<Rightarrow> real \<Rightarrow> SampleState list \<Rightarrow> (abort + SampleState list) option" where
  "add_sample_states sample step end_time t ss =
     (if t < end_time then
        (case sample t of
           Inl e \<Rightarrow> Some (Inl e)
         | Inr s \<Rightarrow> add_sample_states sample step end_time (t + step) (ss @ [s]))
      else Some (Inr ss))"

definition PredictImuStatesAndSampleStates :: "(real \<Rightarrow> Quaterniond \<Rightarrow> Quaterniond \<Rightarrow> Quaterniond)
    \<Rightarrow> (Vector3d \<Rightarrow> Quaterniond) \<Rightarrow> SampleState \<Rightarrow> LidarOdometry \<Rightarrow> real
    \<Rightarrow> (abort + LidarOdometry) option" where
  "PredictImuStatesAndSampleStates slerp Exp new_ss this end_time =
     (case PredictImuStates Exp new_ss this end_time of
        Inl e \<Rightarrow> Some (Inl e)
      | Inr this2 \<Rightarrow>
          let latest = last (sample_states_sld_win this2);
              sample_states_oldtime = timestamp latest
          in (case add_sample_states
                     (interpolated_sample slerp new_ss (ba latest) (bg latest) (grav latest)
                        (imu_states_sld_win this2))
                     (sample_dt (config this2)) end_time
                     (sample_states_oldtime + sample_dt (config this2))
                     (sample_states_sld_win this2) of
                None \<Rightarrow> None
              | Some (Inl e) \<Rightarrow> Some (Inl e)
              | Some (Inr ss) \<Rightarrow> Some (Inr (this2\<lparr>sample_states_sld_win := ss\<rparr>))))"

section \<open>Optimizer pinning and Corrector\<close>

text \<open>
  \<^verbatim>\<open>UpdateSamplePoses\<close> (lines 113-120): four assignments per sample state, in the
  order of the source.
\<close>

definition update_sample_pose :: "(Vector3d \<Rightarrow> Quaterniond) \<Rightarrow> SampleState \<Rightarrow> SampleState" where
  "update_sample_pose Exp sample_state =
     (let st1 = sample_state\<lparr>rot := Exp (rot_cor sample_state) * rot sample_state\<rparr>;
          st2 = st1\<lparr>pos := pos_cor st1 + pos st1\<rparr>;
          st3 = st2\<lparr>rot_cor := 0\<rparr>
      in st3\<lparr>pos_cor := 0\<rparr>)"

definition UpdateSamplePoses :: "(Vector3d \<Rightarrow> Quaterniond) \<Rightarrow> SampleState list \<Rightarrow> SampleState list" where
  "UpdateSamplePoses Exp sample_states = map (update_sample_pose Exp) sample_states"

text \<open>
  \<^verbatim>\<open>CubicBSplineSampleCorrector\<close> (lines 122-154). The class
  \<^verbatim>\<open>CubicBSplineInterpolator\<close> is not in the file: \<open>interp ts vs t\<close> stands for
  \<^verbatim>\<open>Interp(t)\<close> of the interpolator constructed from the timestamps \<open>ts\<close> and the
  control values \<open>vs\<close>, with \<open>None\<close> for the null pointer.
\<close>

type_synonym Interpolator = "real list \<Rightarrow> Vector3d list \<Rightarrow> real \<Rightarrow> Vector3d option"

definition GetCorr :: "Interpolator \<Rightarrow> SampleState list \<Rightarrow> real
    \<Rightarrow> abort + (Vector3d \<times> Vector3d) option" where
  "GetCorr interp sample_states t =
     (let rot_cor_ptr = interp (map timestamp sample_states) (map rot_cor sample_states) t;
          pos_cor_ptr = interp (map timestamp sample_states) (map pos_cor sample_states) t
      in case (rot_cor_ptr, pos_cor_ptr) of
           (Some r, Some p) \<Rightarrow> Inr (Some (r, p))
         | (None, None) \<Rightarrow> Inr None
         | _ \<Rightarrow> Inl CheckFailed)"

text \<open>
  The rigid transforms \<^verbatim>\<open>Rigid3d\<close> of \<^verbatim>\<open>common/utils.h\<close> are not in the file either:
  the constructor from a position and a rotation, the product, the inverse and the two
  accessors are the fields of a record of operations over some type \<open>'r\<close>.
\<close>

record 'r Rigid3d_ops =
  Rigid3d :: "Vector3d \<Rightarrow> Quaterniond \<Rightarrow> 'r"
  compose :: "'r \<Rightarrow> 'r \<Rightarrow> 'r"
  inverse_of :: "'r \<Rightarrow> 'r"
  rotation :: "'r \<Rightarrow> Quaterniond"
  translation :: "'r \<Rightarrow> Vector3d"

text \<open>A \<^verbatim>\<open>for\<close> loop over the indices \<open>is\<close> whose body may abort.\<close>

fun for_loop :: "nat list \<Rightarrow> (nat \<Rightarrow> 's \<Rightarrow> abort + 's) \<Rightarrow> 's \<Rightarrow> abort + 's" where
  "for_loop [] body s = Inr s"
| "for_loop (i # is) body s =
     (case body i s of Inl e \<Rightarrow> Inl e | Inr s' \<Rightarrow> for_loop is body s')"

text \<open>
  \<^verbatim>\<open>UpdateImuPoses\<close> (lines 162-200). The state of the first loop is the copy
  \<^verbatim>\<open>imu_states_new\<close> and the two indices, which start at \<open>-1\<close>.
\<close>

definition correct_imu_state :: "Interpolator \<Rightarrow> (Vector3d \<Rightarrow> Quaterniond) \<Rightarrow> SampleState list
    \<Rightarrow> nat \<Rightarrow> ImuState list \<times> int \<times> int \<Rightarrow> abort + (ImuState list \<times> int \<times> int)" where
  "correct_imu_state interp Exp sample_states i st =
     (case st of (imu_states_new, corrected_first_idx, corrected_last_idx) \<Rightarrow>
        let imu_state = imu_states_new ! i
        in (case GetCorr interp sample_states (i_timestamp imu_state) of
              Inl e \<Rightarrow> Inl e
            | Inr None \<Rightarrow> Inr (imu_states_new, corrected_first_idx, corrected_last_idx)
            | Inr (Some (rc, pc)) \<Rightarrow>
                Inr (imu_states_new[i := imu_state\<lparr>i_rot := Exp rc * i_rot imu_state,
                                                    i_pos := pc + i_pos imu_state\<rparr>],
                     if corrected_first_idx = - 1 then int i else corrected_first_idx,
                     int i)))"

definition relative_update :: "'r Rigid3d_ops \<Rightarrow> ImuState \<Rightarrow> ImuState \<Rightarrow> ImuState \<Rightarrow> ImuState
    \<Rightarrow> ImuState" where
  "relative_update R old_i old_j new_j new_i =
     (let pose_i_new =
            compose R
              (compose R (Rigid3d R (i_pos old_i) (i_rot old_i))
                         (inverse_of R (Rigid3d R (i_pos old_j) (i_rot old_j))))
              (Rigid3d R (i_pos new_j) (i_rot new_j))
      in new_i\<lparr>i_rot := rotation R pose_i_new, i_pos := translation R pose_i_new\<rparr>)"

definition update_heading :: "'r Rigid3d_ops \<Rightarrow> ImuState list \<Rightarrow> nat \<Rightarrow> ImuState list
    \<Rightarrow> ImuState list" where
  "update_heading R imu_states i imu_states_new =
     imu_states_new[i := relative_update R (imu_states ! i) (imu_states ! (i + 1))
                           (imu_states_new ! (i + 1)) (imu_states_new ! i)]"

definition update_tailing :: "'r Rigid3d_ops \<Rightarrow> ImuState list \<Rightarrow> nat \<Rightarrow> ImuState list
    \<Rightarrow> ImuState list" where
  "update_tailing R imu_states i imu_states_new =
     imu_states_new[i := relative_update R (imu_states ! i) (imu_states ! (i - 1))
                           (imu_states_new ! (i - 1)) (imu_states_new ! i)]"

definition UpdateImuPoses :: "Interpolator \<Rightarrow> (Vector3d \<Rightarrow> Quaterniond) \<Rightarrow> 'r Rigid3d_ops
    \<Rightarrow> SampleState list \<Rightarrow> ImuState list \<Rightarrow> abort + ImuState list" where
  "UpdateImuPoses interp Exp R sample_states imu_states =
     (case for_loop [0 ..< length imu_states] (correct_imu_state interp Exp sample_states)
             (imu_states, - 1, - 1) of
        Inl e \<Rightarrow> Inl e
      | Inr (new1, corrected_first_idx, corrected_last_idx) \<Rightarrow>
          if corrected_first_idx \<noteq> - 1 then
            let new2 = fold (update_heading R imu_states)
                         (rev [0 ..< nat corrected_first_idx]) new1;
                new3 = fold (update_tailing R imu_states)
                         [nat (corrected_last_idx + 1) ..< length new2] new2
            in Inr new3
          else Inr new1)"




text \<open>
  \<^verbatim>\<open>UpdateSurfelPoses\<close> (lines 83-93): every surfel gets the pose interpolated between the
  two IMU states around its timestamp. \<^verbatim>\<open>Surfel::UpdatePose\<close> is not in the file and is a
  parameter.
\<close>

fun UpdateSurfelPoses :: "(real \<Rightarrow> Quaterniond \<Rightarrow> Quaterniond \<Rightarrow> Quaterniond)
    \<Rightarrow> (Vector3d \<Rightarrow> Quaterniond \<Rightarrow> Surfel \<Rightarrow> Surfel) \<Rightarrow> ImuState list \<Rightarrow> Surfel list
    \<Rightarrow> abort + Surfel list" where
  "UpdateSurfelPoses slerp UpdatePose imu_states [] = Inr []"
| "UpdateSurfelPoses slerp UpdatePose imu_states (surfel # surfels) =
     (let idx = lower_bound imu_states (s_timestamp surfel)
      in if \<not> (idx \<noteq> 0 \<and> idx \<noteq> length imu_states) then Inl CheckFailed
         else
           let factor = (s_timestamp surfel - i_timestamp (imu_states ! (idx - 1)))
                          / (i_timestamp (imu_states ! idx) - i_timestamp (imu_states ! (idx - 1)));
               pos = (1 - factor) *\<^sub>R i_pos (imu_states ! (idx - 1))
                     + factor *\<^sub>R i_pos (imu_states ! idx);
               rot = slerp factor (i_rot (imu_states ! (idx - 1))) (i_rot (imu_states ! idx))
           in (case UpdateSurfelPoses slerp UpdatePose imu_states surfels of
                 Inl e \<Rightarrow> Inl e
               | Inr rest \<Rightarrow> Inr (UpdatePose pos rot surfel # rest)))"

text \<open>
  Lines 513-518 of one outer iteration: the solve, then the Corrector, which updates the
  IMU states from the sample corrections, the surfels from the new IMU states, and the
  sample states last. The window is the triple of the three deques.
\<close>

definition Corrector :: "Interpolator \<Rightarrow> (Vector3d \<Rightarrow> Quaterniond) \<Rightarrow> 'r Rigid3d_ops
    \<Rightarrow> (real \<Rightarrow> Quaterniond \<Rightarrow> Quaterniond \<Rightarrow> Quaterniond)
    \<Rightarrow> (Vector3d \<Rightarrow> Quaterniond \<Rightarrow> Surfel \<Rightarrow> Surfel)
    \<Rightarrow> SampleState list \<times> ImuState list \<times> Surfel list
    \<Rightarrow> abort + (SampleState list \<times> ImuState list \<times> Surfel list)" where
  "Corrector interp Exp R slerp UpdatePose w =
     (case w of (sample_states, imu_states, surfels) \<Rightarrow>
        (case UpdateImuPoses interp Exp R sample_states imu_states of
           Inl e \<Rightarrow> Inl e
         | Inr imu_states_new \<Rightarrow>
             (case UpdateSurfelPoses slerp UpdatePose imu_states_new surfels of
                Inl e \<Rightarrow> Inl e
              | Inr surfels_new \<Rightarrow>
                  Inr (UpdateSamplePoses Exp sample_states, imu_states_new, surfels_new))))"


section \<open>Window trimmer\<close>

text \<open>
  \<^verbatim>\<open>ShrinkToFit\<close> (lines 212-228). Each loop reads the front (and the first one the
  back) of its deque before every test, so it aborts when the deque runs empty.
\<close>

fun shrink_samples :: "real \<Rightarrow> SampleState list \<Rightarrow> abort + SampleState list" where
  "shrink_samples window_duration [] = Inl OutOfRange"
| "shrink_samples window_duration (s # ss) =
     (if timestamp (last (s # ss)) - timestamp s > window_duration
      then shrink_samples window_duration ss
      else Inr (s # ss))"

fun shrink_imus :: "real \<Rightarrow> ImuState list \<Rightarrow> abort + ImuState list" where
  "shrink_imus t [] = Inl OutOfRange"
| "shrink_imus t (i # is) =
     (if i_timestamp i < t then shrink_imus t is else Inr (i # is))"

fun shrink_surfels :: "real \<Rightarrow> Surfel list \<Rightarrow> abort + Surfel list" where
  "shrink_surfels t [] = Inl OutOfRange"
| "shrink_surfels t (u # us) =
     (if s_timestamp u < t then shrink_surfels t us else Inr (u # us))"

definition ShrinkToFit :: "SampleState list \<Rightarrow> ImuState list \<Rightarrow> Surfel list \<Rightarrow> real
    \<Rightarrow> abort + (SampleState list \<times> ImuState list \<times> Surfel list)" where
  "ShrinkToFit sample_states imu_states surfels window_duration =
     (if sample_states = []
         \<or> timestamp (last sample_states) - timestamp (hd sample_states) \<le> window_duration
      then Inr (sample_states, imu_states, surfels)
      else case shrink_samples window_duration sample_states of
             Inl e \<Rightarrow> Inl e
           | Inr ss \<Rightarrow>
               (case shrink_imus (timestamp (hd ss)) imu_states of
                  Inl e \<Rightarrow> Inl e
                | Inr is \<Rightarrow>
                    (case shrink_surfels (i_timestamp (hd is)) surfels of
                       Inl e \<Rightarrow> Inl e
                     | Inr us \<Rightarrow> Inr (ss, is, us))))"

section \<open>Residual assembly for surfel correspondences\<close>

text \<open>
  \<^verbatim>\<open>LidarOdometry::BuildLidarResiduals\<close> (lines 232-280). A parameter block is the
  \<^verbatim>\<open>data_cor\<close> array of a sample state of the window, named here by the index of that
  state. \<open>SurfelMatchBinaryFactor k\<close> carries the template argument \<open>k\<close> and the six
  constructor arguments. The problem is the list of the residual blocks added so far and
  the id of a block is its position.
\<close>

datatype LossFunction = CauchyLoss real | TrivialLoss

datatype CostFunction = SurfelMatchBinaryFactor nat Surfel nat nat Surfel nat nat

record ResidualBlock =
  cost_function :: CostFunction
  loss_function :: LossFunction
  parameter_blocks :: "nat list"

text \<open>
  \<^verbatim>\<open>std::upper_bound\<close> with the comparison \<^verbatim>\<open>lhs < rhs->timestamp\<close>, on a window whose
  timestamps do not decrease: the index of the first state later than \<open>v\<close>, the size of
  the window when there is none.
\<close>

definition upper_bound :: "SampleState list \<Rightarrow> real \<Rightarrow> nat" where
  "upper_bound sample_states v = length (takeWhile (\<lambda>s. \<not> v < timestamp s) sample_states)"

definition AddResidualBlock :: "ResidualBlock list \<Rightarrow> ResidualBlock \<Rightarrow> ResidualBlock list \<times> nat" where
  "AddResidualBlock problem rb = (problem @ [rb], length problem)"

definition lidar_residual :: "SampleState list \<Rightarrow> SurfelCorrespondence
    \<Rightarrow> abort + ResidualBlock option" where
  "lidar_residual win surfel_corr =
     (if \<not> s_timestamp (s1 surfel_corr) < s_timestamp (s2 surfel_corr) then Inl CheckFailed
      else
        let sp1r_it = upper_bound win (s_timestamp (s1 surfel_corr))
        in if sp1r_it = 0 then Inl CheckFailed
           else if sp1r_it = length win then Inl CheckFailed
           else
             let sp1l = sp1r_it - 1; sp1r = sp1r_it;
                 sp2r_it = upper_bound win (s_timestamp (s2 surfel_corr))
             in if sp2r_it = 0 then Inl CheckFailed
                else if sp2r_it = length win then Inl CheckFailed
                else
                  let sp2l = sp2r_it - 1; sp2r = sp2r_it
                  in if sp1r_it = 0 \<or> sp1r_it = length win \<or> sp2r_it = 0 \<or> sp2r_it = length win
                     then Inr None
                     else
                       let loss = CauchyLoss 0.4
                       in if timestamp (win ! sp1r) < timestamp (win ! sp2l) then
                            Inr (Some \<lparr>cost_function = SurfelMatchBinaryFactor 0
                                         (s1 surfel_corr) sp1l sp1r (s2 surfel_corr) sp2l sp2r,
                                       loss_function = loss,
                                       parameter_blocks = [sp1l, sp1r, sp2l, sp2r]\<rparr>)
                          else if timestamp (win ! sp1r) = timestamp (win ! sp2l) then
                            Inr (Some \<lparr>cost_function = SurfelMatchBinaryFactor 1
                                         (s1 surfel_corr) sp1l sp1r (s2 surfel_corr) sp2l sp2r,
                                       loss_function = loss,
                                       parameter_blocks = [sp1l, sp1r, sp2r]\<rparr>)
                          else
                            Inr (Some \<lparr>cost_function = SurfelMatchBinaryFactor 2
                                         (s1 surfel_corr) sp1l sp1r (s2 surfel_corr) sp2l sp2r,
                                       loss_function = loss,
                                       parameter_blocks = [sp1l, sp1r]\<rparr>))"

fun BuildLidarResiduals :: "SampleState list \<Rightarrow> SurfelCorrespondence list
    \<Rightarrow> ResidualBlock list \<times> nat list \<Rightarrow> abort + (ResidualBlock list \<times> nat list)" where
  "BuildLidarResiduals win [] pr = Inr pr"
| "BuildLidarResiduals win (surfel_corr # surfel_corrs) pr =
     (case lidar_residual win surfel_corr of
        Inl e \<Rightarrow> Inl e
      | Inr None \<Rightarrow> BuildLidarResiduals win surfel_corrs pr
      | Inr (Some rb) \<Rightarrow>
          (case pr of (problem, residual_ids) \<Rightarrow>
             (case AddResidualBlock problem rb of (problem', residual_id) \<Rightarrow>
                BuildLidarResiduals win surfel_corrs (problem', residual_ids @ [residual_id]))))"

section \<open>The missing helpers, from the spec\<close>

text \<open>
  Modelled from the spec: \<^verbatim>\<open>Rigid3d\<close> (\<^verbatim>\<open>common/utils.h\<close>) is missing. \<open>rigid_pair\<close> is
  the composition of rigid transforms the spec speaks of, on pairs of a translation and a
  rotation: \<open>(t\<^sub>1, q\<^sub>1) \<cdot> (t\<^sub>2, q\<^sub>2) = (q\<^sub>1 \<cdot> t\<^sub>2 + t\<^sub>1, q\<^sub>1 \<cdot> q\<^sub>2)\<close>, with the inverse
  \<open>(- (q\<^sup>* \<cdot> t), q\<^sup>*)\<close>. The spec keeps every quaternion of a state at unit norm.
\<close>

fun conjugate :: "Quaterniond \<Rightarrow> Quaterniond" where
  "conjugate (Quat w x y z) = Quat w (- x) (- y) (- z)"

fun unit_norm :: "Quaterniond \<Rightarrow> bool" where
  "unit_norm (Quat w x y z) \<longleftrightarrow> w * w + x * x + y * y + z * z = 1"

definition rigid_pair :: "(Vector3d \<times> Quaterniond) Rigid3d_ops" where
  "rigid_pair =
     \<lparr>Rigid3d = (\<lambda>t q. (t, q)),
      compose = (\<lambda>a b. (transformVector (snd a) (fst b) + fst a, snd a * snd b)),
      inverse_of = (\<lambda>a. (- transformVector (conjugate (snd a)) (fst a), conjugate (snd a))),
      rotation = snd,
      translation = fst\<rparr>"

text \<open>
  Modelled from the spec: \<^verbatim>\<open>CubicBSplineInterpolator\<close>
  (\<^verbatim>\<open>odometry/spline_interpolation.h\<close>) is missing. \<open>interp_bspline\<close> is a uniform cubic
  B-spline whose knots are the timestamps \<open>ts\<close> and whose control values are \<open>vs\<close>, defined
  on the interval from the first knot to the last (and for two knots at least); at a time
  in the segment after knot \<open>i\<close> it blends the control values \<open>i - 1\<close> to \<open>i + 2\<close> with the
  cubic B-spline weights, the end values repeated beyond the ends.
\<close>

definition interp_bspline :: Interpolator where
  "interp_bspline ts vs t =
     (if length ts < 2 \<or> t < hd ts \<or> last ts < t then None
      else
        let i = min (length (takeWhile (\<lambda>x. x \<le> t) ts) - 1) (length ts - 2);
            u = (t - ts ! i) / (ts ! (i + 1) - ts ! i);
            c = (\<lambda>k. vs ! nat (max 0 (min (int (length ts) - 1) k)))
        in Some (((1 - u) ^ 3 / 6) *\<^sub>R c (int i - 1)
                 + ((3 * u ^ 3 - 6 * u ^ 2 + 4) / 6) *\<^sub>R c (int i)
                 + ((- 3 * u ^ 3 + 3 * u ^ 2 + 3 * u + 1) / 6) *\<^sub>R c (int i + 1)
                 + (u ^ 3 / 6) *\<^sub>R c (int i + 2)))"

section \<open>Statements of the specification\<close>

text \<open>The Euclidean norm \<open>\<parallel>v\<parallel>\<close> of the formula \<open>grav = -g \<cdot> acc\<^sub>0 / \<parallel>acc\<^sub>0\<parallel>\<close>.\<close>

definition vnorm :: "Vector3d \<Rightarrow> real" where
  "vnorm v = sqrt (squaredNorm v)"

text \<open>
  The two-step integrator of section 4.2 of the spec, at index \<open>i\<close> of a window of IMU states:
  \<open>rot\<^sub>i = rot\<^sub>i\<^sub>-\<^sub>1 \<cdot> Exp ((\<onehalf> \<cdot> (gyr\<^sub>i\<^sub>-\<^sub>1 + gyr\<^sub>i) - bg) \<cdot> dt)\<close> and
  \<open>pos\<^sub>i = 2 \<cdot> pos\<^sub>i\<^sub>-\<^sub>1 - pos\<^sub>i\<^sub>-\<^sub>2 + (rot\<^sub>i\<^sub>-\<^sub>2 \<cdot> (acc\<^sub>i\<^sub>-\<^sub>2 - ba) + grav) \<cdot> dt\<^sup>2\<close>.
\<close>

definition integrates :: "(Vector3d \<Rightarrow> Quaterniond) \<Rightarrow> real \<Rightarrow> Vector3d \<Rightarrow> Vector3d \<Rightarrow> Vector3d
    \<Rightarrow> ImuState list \<Rightarrow> nat \<Rightarrow> bool" where
  "integrates Exp dt ba0 bg0 grav0 win i \<longleftrightarrow>
     i_rot (win ! i) = i_rot (win ! (i - 1))
        * Exp (dt *\<^sub>R ((1 / 2) *\<^sub>R (gyr (win ! (i - 1)) + gyr (win ! i)) - bg0))
   \<and> i_pos (win ! i) = 2 *\<^sub>R i_pos (win ! (i - 1)) - i_pos (win ! (i - 2))
        + (dt ^ 2) *\<^sub>R (transformVector (i_rot (win ! (i - 2))) (acc (win ! (i - 2)) - ba0) + grav0)"

text \<open>
  The table of section 4.6 of the spec. \<open>r1\<close> and \<open>r2\<close> are the indices of the right
  brackets \<open>R1\<close> and \<open>R2\<close>, so \<open>L1\<close> is \<open>r1 - 1\<close> and \<open>L2\<close> is \<open>r2 - 1\<close>; the result is
  the topology (0 disjoint, 1 adjacent, 2 overlapping) and the parameter blocks.
\<close>

definition spec_topology :: "SampleState list \<Rightarrow> nat \<Rightarrow> nat \<Rightarrow> nat \<times> nat list" where
  "spec_topology win r1 r2 =
     (if timestamp (win ! r1) < timestamp (win ! (r2 - 1)) then (0, [r1 - 1, r1, r2 - 1, r2])
      else if timestamp (win ! r1) = timestamp (win ! (r2 - 1)) then (1, [r1 - 1, r1, r2])
      else (2, [r1 - 1, r1]))"

text \<open>
  A correspondence as section 4.6 takes it: \<open>s1\<close> earlier than \<open>s2\<close>, and the right bracket of
  each surfel, found by upper bound, strictly inside the window. For such a correspondence
  \<open>spec_factor\<close> is the residual block of the table: the factor of the topology over the
  brackets, the Cauchy loss of scale 0.4, and the parameter blocks of the row.
\<close>

definition strictly_inside :: "SampleState list \<Rightarrow> SurfelCorrespondence \<Rightarrow> bool" where
  "strictly_inside win c \<longleftrightarrow>
     s_timestamp (s1 c) < s_timestamp (s2 c)
   \<and> 0 < upper_bound win (s_timestamp (s1 c)) \<and> upper_bound win (s_timestamp (s1 c)) < length win
   \<and> 0 < upper_bound win (s_timestamp (s2 c)) \<and> upper_bound win (s_timestamp (s2 c)) < length win"

definition spec_factor :: "SampleState list \<Rightarrow> SurfelCorrespondence \<Rightarrow> ResidualBlock" where
  "spec_factor win c =
     (let r1 = upper_bound win (s_timestamp (s1 c));
          r2 = upper_bound win (s_timestamp (s2 c))
      in \<lparr>cost_function = SurfelMatchBinaryFactor (fst (spec_topology win r1 r2))
                             (s1 c) (r1 - 1) r1 (s2 c) (r2 - 1) r2,
          loss_function = CauchyLoss 0.4,
          parameter_blocks = snd (spec_topology win r1 r2)\<rparr>)"

text \<open>
  What the B-spline identity of section 8 needs of the three missing helpers, whatever their
  code is. Of the interpolator on the knots \<open>ts\<close>: a spline is a weighted sum of its control
  values, so where it is defined it is zero when they are all zero.
\<close>

definition spline_of_zeros :: "Interpolator \<Rightarrow> real list \<Rightarrow> bool" where
  "spline_of_zeros interp ts \<longleftrightarrow>
     (\<forall>t v. interp ts (replicate (length ts) 0) t = Some v \<longrightarrow> v = 0)"

text \<open>
  Of the rigid transforms \<open>R\<close>, at the poses of two IMU states \<open>a\<close> and \<open>b\<close>: the law
  \<open>a \<cdot> b\<^sup>-\<^sup>1 \<cdot> b = a\<close>, with the product taken from the left as the source writes it. (Of
  \<open>Exp\<close> the identity needs that it maps the zero vector to the identity rotation.)
\<close>

definition cancels :: "'r Rigid3d_ops \<Rightarrow> ImuState \<Rightarrow> ImuState \<Rightarrow> bool" where
  "cancels R a b \<longleftrightarrow>
     (let p = compose R (compose R (Rigid3d R (i_pos a) (i_rot a))
                                   (inverse_of R (Rigid3d R (i_pos b) (i_rot b))))
                        (Rigid3d R (i_pos b) (i_rot b))
      in rotation R p = i_rot a \<and> translation R p = i_pos a)"


text \<open>
  An invariant of the first loop of \<^verbatim>\<open>UpdateImuPoses\<close>: its two indices are both \<open>-1\<close>
  or both inside a window of \<open>n\<close> states.
\<close>

definition idx_ok :: "nat \<Rightarrow> int \<Rightarrow> int \<Rightarrow> bool" where
  "idx_ok n f l \<longleftrightarrow> (f = - 1 \<and> l = - 1) \<or> (0 \<le> f \<and> f < int n \<and> 0 \<le> l \<and> l < int n)"

section \<open>Sample data\<close>

text \<open>
  Values on which the functions are run below. For \<open>Exp\<close> and \<open>slerp\<close>, which the
  theorems leave arbitrary, the first-order exponential map and the linear blend of the
  coefficients stand in.
\<close>

fun Exp_first_order :: "Vector3d \<Rightarrow> Quaterniond" where
  "Exp_first_order (Vec3 x y z) = Quat 1 (x / 2) (y / 2) (z / 2)"

fun lerp :: "real \<Rightarrow> Quaterniond \<Rightarrow> Quaterniond \<Rightarrow> Quaterniond" where
  "lerp f (Quat aw ax ay az) (Quat bw bx by bz) =
     Quat ((1 - f) * aw + f * bw) ((1 - f) * ax + f * bx)
          ((1 - f) * ay + f * by) ((1 - f) * az + f * bz)"

text \<open>The surfels of the model carry no pose, so the stand-in for \<^verbatim>\<open>UpdatePose\<close> keeps them.\<close>

definition keep_pose :: "Vector3d \<Rightarrow> Quaterniond \<Rightarrow> Surfel \<Rightarrow> Surfel" where
  "keep_pose p q surfel = surfel"

definition point_at :: "real \<Rightarrow> Point" where
  "point_at t = \<lparr>xyz = Vec3 1 0 0, time = t\<rparr>"

definition imu_msg_at :: "real \<Rightarrow> Vector3d \<Rightarrow> ImuData" where
  "imu_msg_at t w =
     \<lparr>d_timestamp = t, linear_acceleration = Vec3 0 0 (981 / 100), angular_velocity = w\<rparr>"

definition imu_state_at :: "real \<Rightarrow> Vector3d \<Rightarrow> Quaterniond \<Rightarrow> ImuState" where
  "imu_state_at t p q =
     \<lparr>i_timestamp = t, acc = Vec3 0 0 (981 / 100), gyr = 0, i_pos = p, i_rot = q\<rparr>"

definition sample_at :: "real \<Rightarrow> SampleState" where
  "sample_at t =
     \<lparr>timestamp = t, pos = Vec3 1 2 3, rot = Quat 0 1 0 0, ba = 0, bg = 0,
      grav = Vec3 0 0 (- 981 / 100), rot_cor = 0, pos_cor = 0, ba_cor = 0, bg_cor = 0\<rparr>"

definition surfel_at :: "real \<Rightarrow> Surfel" where
  "surfel_at t = \<lparr>s_timestamp = t\<rparr>"

definition corr_at :: "real \<Rightarrow> real \<Rightarrow> SurfelCorrespondence" where
  "corr_at t1 t2 = \<lparr>s1 = surfel_at t1, s2 = surfel_at t2\<rparr>"

definition window4 :: "SampleState list" where
  "window4 = [sample_at 0, sample_at 1, sample_at 2, sample_at 3]"

definition imus4 :: "ImuState list" where
  "imus4 = [imu_state_at 0 0 1, imu_state_at 1 (Vec3 1 0 0) (Quat (3 / 5) (4 / 5) 0 0),
            imu_state_at 2 (Vec3 1 2 0) (Quat 0 0 1 0),
            imu_state_at 3 (Vec3 1 2 3) (Quat (1 / 2) (1 / 2) (1 / 2) (1 / 2))]"

text \<open>An estimator as constructed, one with two buffered IMU samples, and one in mid-run.\<close>

definition odom0 :: LidarOdometry where
  "odom0 =
     \<lparr>config = \<lparr>imu_rate = 100, gravity_norm = 981 / 100, sample_dt = 1 / 10,
                 sweep_duration = 1 / 10, sliding_window_duration = 1\<rparr>,
      imu_buff = [], points_buff = [], imu_states_sld_win = [], sample_states_sld_win = [],
      surfels_sld_win = [], sync_done = False, init_sld_win = False\<rparr>"

definition odom_fresh :: LidarOdometry where
  "odom_fresh = odom0\<lparr>imu_buff := [imu_msg_at 0 0, imu_msg_at (1 / 100) 0]\<rparr>"

definition odom_run :: LidarOdometry where
  "odom_run =
     odom0\<lparr>init_sld_win := True,
           imu_states_sld_win := [imu_state_at 0 0 1, imu_state_at (1 / 100) 0 1],
           sample_states_sld_win :=
             [(sample_at 0)\<lparr>ba := Vec3 0 0 (- 19 / 100), bg := Vec3 0 0 1\<rparr>],
           imu_buff := [imu_msg_at (2 / 100) (Vec3 0 0 2), imu_msg_at (3 / 100) (Vec3 0 0 4),
                        imu_msg_at (4 / 100) 0]\<rparr>"

definition predicted :: "ImuState list" where
  "predicted =
     [imu_state_at 0 0 1, imu_state_at (1 / 100) 0 1,
      (imu_state_at (2 / 100) (Vec3 0 0 (19 / 1000000)) 1)\<lparr>gyr := Vec3 0 0 2\<rparr>,
      (imu_state_at (3 / 100) (Vec3 0 0 (57 / 1000000)) (Quat 1 0 0 (1 / 100)))
        \<lparr>gyr := Vec3 0 0 4\<rparr>]"

section \<open>Ingest and head-sync\<close>

text \<open>
  Claim C10. \<^verbatim>\<open>AddImuData\<close> has no failing path: for every estimator and every sample
  the IMU buffer afterwards is the old buffer with that sample at the back, and nothing else
  changes; no timestamp is compared, also when the sample is earlier than the back of the
  buffer. The point-ingest loop differs: a point earlier than the back of a non-empty point
  buffer aborts it.
\<close>

theorem AddImuData_appends_unchecked:
  "AddImuData this msg = this\<lparr>imu_buff := imu_buff this @ [msg]\<rparr>
   \<and> (buff \<noteq> [] \<and> time p < time (last buff)
        \<longrightarrow> ingest_points ext rejected (p # ps) buff = Inl CheckFailed)"
  by (simp add: AddImuData_def)

theorem AddImuData_appends_unchecked_witness:
  "d_timestamp (imu_msg_at 1 0) < d_timestamp (last (imu_buff (odom0\<lparr>imu_buff := [imu_msg_at 5 0]\<rparr>)))
   \<and> AddImuData (odom0\<lparr>imu_buff := [imu_msg_at 5 0]\<rparr>) (imu_msg_at 1 0)
       = odom0\<lparr>imu_buff := [imu_msg_at 5 0, imu_msg_at 1 0]\<rparr>
   \<and> ingest_points (\<lambda>v. v) (\<lambda>v. False) [point_at 1] [point_at 5] = Inl CheckFailed"
  using AddImuData_appends_unchecked [of "odom0\<lparr>imu_buff := [imu_msg_at 5 0]\<rparr>" "imu_msg_at 1 0"
      "[point_at 5]" "point_at 1" "\<lambda>v. v" "\<lambda>v. False" "[]"]
  by (simp add: imu_msg_at_def point_at_def)







section \<open>Predictor\<close>

lemma init_window_result:
  assumes "imu_buff this = m0 # m1 # rest"
  shows "init_window Exp new_ss dt this =
     Inr (this\<lparr>imu_buff := rest,
              imu_states_sld_win := imu_states_sld_win this @
                [\<lparr>i_timestamp = d_timestamp m0, acc = linear_acceleration m0,
                  gyr = angular_velocity m0, i_pos = 0, i_rot = 1\<rparr>,
                 \<lparr>i_timestamp = d_timestamp m1, acc = linear_acceleration m1,
                  gyr = angular_velocity m1, i_pos = 0,
                  i_rot = Exp (dt *\<^sub>R ((1 / 2) *\<^sub>R (angular_velocity m0 + angular_velocity m1)))\<rparr>],
              sample_states_sld_win := sample_states_sld_win this @
                [first_sample_state new_ss (gravity_norm (config this))
                   (hd (imu_states_sld_win this @
                     [\<lparr>i_timestamp = d_timestamp m0, acc = linear_acceleration m0,
                       gyr = angular_velocity m0, i_pos = 0, i_rot = 1\<rparr>]))],
              init_sld_win := True\<rparr>)"
proof -
  have "hd ((ws @ [a]) @ [b]) = hd (ws @ [a])" for ws :: "ImuState list" and a b
    by (cases ws) simp_all
  with assms show ?thesis by (simp add: init_window_def init_imu_state_def)
qed

lemma squaredNorm_pos: "v \<noteq> 0 \<Longrightarrow> 0 < squaredNorm v"
proof (cases v)
  case (Vec3 a b c)
  assume "v \<noteq> 0"
  with Vec3 have "a \<noteq> 0 \<or> b \<noteq> 0 \<or> c \<noteq> 0" by (simp add: zero_Vector3d_def)
  then have "0 < a * a + b * b + c * c"
    by (metis add_pos_nonneg add_nonneg_pos zero_le_square not_real_square_gt_zero add_nonneg_nonneg)
  with Vec3 show ?thesis by simp
qed

lemma normalized_nonzero: "v \<noteq> 0 \<Longrightarrow> normalized v = v /\<^sub>R vnorm v"
  by (simp add: normalized_def vnorm_def squaredNorm_pos)

lemma predict_state_formula:
  "i_rot (predict_state Exp dt ba0 bg0 grav0 p2 p1 m) =
      i_rot p1 * Exp (dt *\<^sub>R ((1 / 2) *\<^sub>R (gyr p1 + gyr (predict_state Exp dt ba0 bg0 grav0 p2 p1 m)) - bg0))
   \<and> i_pos (predict_state Exp dt ba0 bg0 grav0 p2 p1 m) =
      2 *\<^sub>R i_pos p1 - i_pos p2 + (dt ^ 2) *\<^sub>R (transformVector (i_rot p2) (acc p2 - ba0) + grav0)
   \<and> i_timestamp (predict_state Exp dt ba0 bg0 grav0 p2 p1 m) = d_timestamp m
   \<and> acc (predict_state Exp dt ba0 bg0 grav0 p2 p1 m) = linear_acceleration m
   \<and> gyr (predict_state Exp dt ba0 bg0 grav0 p2 p1 m) = angular_velocity m"
  by (simp add: predict_state_def power2_eq_square)

text \<open>
  The loop of block 2 returns on every window of at least two states: it consumes a prefix
  of the buffer, appends one state per consumed sample, and every appended state obeys the
  recurrence.
\<close>

lemma predict_imu_states_spec:
  assumes "2 \<le> length win"
  shows "\<exists>n win'. n \<le> length buff
          \<and> predict_imu_states Exp dt ba0 bg0 grav0 e buff win = Inr (drop n buff, win')
          \<and> length win' = length win + n \<and> take (length win) win' = win
          \<and> (\<forall>i. length win \<le> i \<and> i < length win' \<longrightarrow>
                integrates Exp dt ba0 bg0 grav0 win' i
                \<and> i_timestamp (win' ! i) = d_timestamp (buff ! (i - length win))
                \<and> acc (win' ! i) = linear_acceleration (buff ! (i - length win))
                \<and> gyr (win' ! i) = angular_velocity (buff ! (i - length win)))"
  using assms
proof (induction buff arbitrary: win)
  case Nil
  then show ?case by auto
next
  case (Cons m buff)
  let ?k = "length win"
  let ?st = "predict_state Exp dt ba0 bg0 grav0 (win ! (?k - 2)) (win ! (?k - 1)) m"
  let ?w1 = "win @ [?st]"
  have st: "integrates Exp dt ba0 bg0 grav0 (?w1 @ more) ?k" for more
  proof -
    from Cons.prems have "(?w1 @ more) ! ?k = ?st" "(?w1 @ more) ! (?k - 1) = win ! (?k - 1)"
      "(?w1 @ more) ! (?k - 2) = win ! (?k - 2)"
      by (simp_all add: nth_append)
    then show ?thesis
      unfolding integrates_def
      using predict_state_formula [of Exp dt ba0 bg0 grav0 "win ! (?k - 2)" "win ! (?k - 1)" m]
      by presburger
  qed
  show ?case
  proof (cases "i_timestamp ?st \<ge> e")
    case True
    have "predict_imu_states Exp dt ba0 bg0 grav0 e (m # buff) win = Inr (drop 1 (m # buff), ?w1)"
      using Cons.prems True by (simp add: Let_def)
    moreover have "\<forall>i. ?k \<le> i \<and> i < length ?w1 \<longrightarrow>
                integrates Exp dt ba0 bg0 grav0 ?w1 i
                \<and> i_timestamp (?w1 ! i) = d_timestamp ((m # buff) ! (i - ?k))
                \<and> acc (?w1 ! i) = linear_acceleration ((m # buff) ! (i - ?k))
                \<and> gyr (?w1 ! i) = angular_velocity ((m # buff) ! (i - ?k))"
    proof (intro allI impI)
      fix i assume "?k \<le> i \<and> i < length ?w1"
      then have "i = ?k" by simp
      then show "integrates Exp dt ba0 bg0 grav0 ?w1 i
                \<and> i_timestamp (?w1 ! i) = d_timestamp ((m # buff) ! (i - ?k))
                \<and> acc (?w1 ! i) = linear_acceleration ((m # buff) ! (i - ?k))
                \<and> gyr (?w1 ! i) = angular_velocity ((m # buff) ! (i - ?k))"
        using st [of "[]"] by (simp add: predict_state_def)
    qed
    ultimately show ?thesis
      by (intro exI [of _ 1] exI [of _ ?w1]) simp
  next
    case False
    have rec: "predict_imu_states Exp dt ba0 bg0 grav0 e (m # buff) win
             = predict_imu_states Exp dt ba0 bg0 grav0 e buff ?w1"
      using Cons.prems False by (simp add: Let_def)
    from Cons.prems have "2 \<le> length ?w1" by simp
    from Cons.IH [OF this] obtain n win' where
      n: "n \<le> length buff" and
      r: "predict_imu_states Exp dt ba0 bg0 grav0 e buff ?w1 = Inr (drop n buff, win')" and
      l: "length win' = length ?w1 + n" and
      t: "take (length ?w1) win' = ?w1" and
      a: "\<forall>i. length ?w1 \<le> i \<and> i < length win' \<longrightarrow>
                integrates Exp dt ba0 bg0 grav0 win' i
                \<and> i_timestamp (win' ! i) = d_timestamp (buff ! (i - length ?w1))
                \<and> acc (win' ! i) = linear_acceleration (buff ! (i - length ?w1))
                \<and> gyr (win' ! i) = angular_velocity (buff ! (i - length ?w1))"
      by blast
    from t have w': "win' = ?w1 @ drop (length ?w1) win'"
      by (metis append_take_drop_id)
    have tk: "take ?k win' = win"
      by (subst w') simp
    have "\<forall>i. ?k \<le> i \<and> i < length win' \<longrightarrow>
                integrates Exp dt ba0 bg0 grav0 win' i
                \<and> i_timestamp (win' ! i) = d_timestamp ((m # buff) ! (i - ?k))
                \<and> acc (win' ! i) = linear_acceleration ((m # buff) ! (i - ?k))
                \<and> gyr (win' ! i) = angular_velocity ((m # buff) ! (i - ?k))"
    proof (intro allI impI)
      fix i assume i: "?k \<le> i \<and> i < length win'"
      show "integrates Exp dt ba0 bg0 grav0 win' i
                \<and> i_timestamp (win' ! i) = d_timestamp ((m # buff) ! (i - ?k))
                \<and> acc (win' ! i) = linear_acceleration ((m # buff) ! (i - ?k))
                \<and> gyr (win' ! i) = angular_velocity ((m # buff) ! (i - ?k))"
      proof (cases "i = ?k")
        case True
        have "win' ! ?k = ?st" by (subst w') (simp add: nth_append)
        with True st [of "drop (length ?w1) win'"] w' show ?thesis
          by (simp add: predict_state_def)
      next
        case False
        with i have "length ?w1 \<le> i \<and> i < length win'" by simp
        with a have "integrates Exp dt ba0 bg0 grav0 win' i
                \<and> i_timestamp (win' ! i) = d_timestamp (buff ! (i - length ?w1))
                \<and> acc (win' ! i) = linear_acceleration (buff ! (i - length ?w1))
                \<and> gyr (win' ! i) = angular_velocity (buff ! (i - length ?w1))" by blast
        moreover from False i have "(m # buff) ! (i - ?k) = buff ! (i - length ?w1)"
          by (simp add: nth_Cons')
        ultimately show ?thesis by simp
      qed
    qed
    with n r l tk rec show ?thesis
      by (intro exI [of _ "Suc n"] exI [of _ win']) simp
  qed
qed

text \<open>
  Block 3 only appends sample states, each with the biases and gravity it is given, and
  returns (normally or by a failed \<^verbatim>\<open>CHECK\<close>) whenever the step is positive.
\<close>

lemma add_sample_states_appends_aux:
  assumes "add_sample_states sample step end_time t ss = Some y"
  shows "\<forall>ss'. y = Inr ss' \<longrightarrow>
        (\<exists>more. ss' = ss @ more \<and> (\<forall>s \<in> set more. \<exists>u. sample u = Inr s))"
proof (rule add_sample_states.raw_induct
    [where P = "\<lambda>sample step end_time t ss y. \<forall>ss'. y = Inr ss' \<longrightarrow>
        (\<exists>more. ss' = ss @ more \<and> (\<forall>s \<in> set more. \<exists>u. sample u = Inr s))", OF _ assms])
  fix f :: "(real \<Rightarrow> abort + SampleState) \<Rightarrow> real \<Rightarrow> real \<Rightarrow> real \<Rightarrow> SampleState list
              \<Rightarrow> (abort + SampleState list) option"
    and sample step end_time t ss y
  assume IH: "\<And>sample step end_time t ss y. f sample step end_time t ss = Some y \<Longrightarrow>
      \<forall>ss'. y = Inr ss' \<longrightarrow>
        (\<exists>more. ss' = ss @ more \<and> (\<forall>s \<in> set more. \<exists>u. sample u = Inr s))"
    and eq: "(if t < end_time
              then case sample t of Inl e \<Rightarrow> Some (Inl e)
                   | Inr s \<Rightarrow> f sample step end_time (t + step) (ss @ [s])
              else Some (Inr ss)) = Some y"
  show "\<forall>ss'. y = Inr ss' \<longrightarrow>
        (\<exists>more. ss' = ss @ more \<and> (\<forall>s \<in> set more. \<exists>u. sample u = Inr s))"
  proof (intro allI impI)
    fix ss' assume y: "y = Inr ss'"
    show "\<exists>more. ss' = ss @ more \<and> (\<forall>s \<in> set more. \<exists>u. sample u = Inr s)"
    proof (cases "t < end_time")
      case True
      show ?thesis
      proof (cases "sample t")
        case (Inl e)
        with True eq y show ?thesis by simp
      next
        case (Inr s)
        with True eq have "f sample step end_time (t + step) (ss @ [s]) = Some y" by simp
        from IH [OF this] y obtain more where "ss' = (ss @ [s]) @ more"
          "\<forall>s \<in> set more. \<exists>u. sample u = Inr s" by blast
        with Inr show ?thesis by (intro exI [of _ "s # more"]) auto
      qed
    next
      case False
      with eq y show ?thesis by simp
    qed
  qed
qed

lemma add_sample_states_appends:
  "add_sample_states sample step end_time t ss = Some (Inr ss') \<Longrightarrow>
     \<exists>more. ss' = ss @ more \<and> (\<forall>s \<in> set more. \<exists>u. sample u = Inr s)"
  using add_sample_states_appends_aux by blast

lemma add_sample_states_returns:
  assumes "0 < step"
  shows "\<exists>r. add_sample_states sample step end_time t ss = Some r"
proof (induction "nat \<lceil>(end_time - t) / step\<rceil>" arbitrary: t ss)
  case 0
  then have "(end_time - t) / step \<le> 0" by simp
  with assms have "\<not> t < end_time" by (simp add: divide_le_0_iff)
  then show ?case by (subst add_sample_states.simps) simp
next
  case (Suc n)
  show ?case
  proof (cases "t < end_time")
    case False
    then show ?thesis by (subst add_sample_states.simps) simp
  next
    case True
    show ?thesis
    proof (cases "sample t")
      case (Inl e)
      with True show ?thesis by (subst add_sample_states.simps) simp
    next
      case (Inr s)
      have "(end_time - (t + step)) / step = (end_time - t) / step - 1"
        using assms by (simp add: field_simps)
      then have "nat \<lceil>(end_time - (t + step)) / step\<rceil> = nat \<lceil>(end_time - t) / step\<rceil> - 1"
        by simp
      with Suc.hyps(2) have "n = nat \<lceil>(end_time - (t + step)) / step\<rceil>" by simp
      from Suc.hyps(1) [OF this, of "ss @ [s]"] True Inr show ?thesis
        by (subst add_sample_states.simps) simp
    qed
  qed
qed

lemma interpolated_sample_fields:
  "interpolated_sample slerp new_ss ba0 bg0 grav0 win t = Inr s \<Longrightarrow>
     timestamp s = t \<and> ba s = ba0 \<and> bg s = bg0 \<and> grav s = grav0"
  by (auto simp add: interpolated_sample_def Let_def split: if_splits)

lemma PredictImuStatesAndSampleStates_frame:
  assumes p: "PredictImuStates Exp new_ss this end_time = Inr this2"
    and f: "PredictImuStatesAndSampleStates slerp Exp new_ss this end_time = Some (Inr this3)"
  shows "imu_states_sld_win this3 = imu_states_sld_win this2
       \<and> imu_buff this3 = imu_buff this2
       \<and> init_sld_win this3 = init_sld_win this2
       \<and> (\<exists>more. sample_states_sld_win this3 = sample_states_sld_win this2 @ more
             \<and> (\<forall>s \<in> set more. ba s = ba (last (sample_states_sld_win this2))
                                \<and> bg s = bg (last (sample_states_sld_win this2))
                                \<and> grav s = grav (last (sample_states_sld_win this2))))"
proof -
  let ?l = "last (sample_states_sld_win this2)"
  let ?sample = "interpolated_sample slerp new_ss (ba ?l) (bg ?l) (grav ?l) (imu_states_sld_win this2)"
  from p f obtain ss where
    a: "add_sample_states ?sample (sample_dt (config this2)) end_time
          (timestamp ?l + sample_dt (config this2)) (sample_states_sld_win this2) = Some (Inr ss)"
    and t: "this3 = this2\<lparr>sample_states_sld_win := ss\<rparr>"
    by (auto simp add: PredictImuStatesAndSampleStates_def Let_def split: option.splits sum.splits)
  from add_sample_states_appends [OF a] obtain more where
    m: "ss = sample_states_sld_win this2 @ more" "\<forall>s \<in> set more. \<exists>u. ?sample u = Inr s"
    by blast
  from m(2) have "\<forall>s \<in> set more. ba s = ba ?l \<and> bg s = bg ?l \<and> grav s = grav ?l"
    by (meson interpolated_sample_fields)
  with m(1) t show ?thesis by simp
qed

lemma PredictImuStatesAndSampleStates_returns:
  assumes "0 < sample_dt (config this)"
  shows "\<exists>r. PredictImuStatesAndSampleStates slerp Exp new_ss this end_time = Some r"
proof (cases "PredictImuStates Exp new_ss this end_time")
  case (Inl e)
  then show ?thesis by (simp add: PredictImuStatesAndSampleStates_def)
next
  case (Inr this2)
  then have "config this2 = config this"
    by (auto simp add: PredictImuStates_def init_window_def init_imu_state_def Let_def
        split: if_splits sum.splits list.splits prod.splits)
  with assms have "0 < sample_dt (config this2)" by simp
  from add_sample_states_returns [OF this] Inr show ?thesis
    by (auto simp add: PredictImuStatesAndSampleStates_def Let_def split: option.splits sum.splits)
qed

text \<open>
  A run of block 3: IMU states at 0, 0.1 and 0.2, the latest sample state at 0, a step of
  0.1 and an end time of 0.15 add one sample state, at 0.1, with the pose of the IMU state
  there.
\<close>

lemma add_sample_states_example:
  "add_sample_states
     (interpolated_sample lerp (sample_at 7) 0 0 (Vec3 0 0 (- 981 / 100))
        [imu_state_at 0 0 1, imu_state_at (1 / 10) (Vec3 1 0 0) (Quat 0 1 0 0),
         imu_state_at (2 / 10) (Vec3 2 0 0) (Quat 0 0 1 0)])
     (1 / 10) (15 / 100) (0 + 1 / 10) [sample_at 0]
   = Some (Inr [sample_at 0,
                (sample_at 7)\<lparr>timestamp := 1 / 10, ba := 0, bg := 0,
                               grav := Vec3 0 0 (- 981 / 100),
                               rot := Quat 0 1 0 0, pos := Vec3 1 0 0\<rparr>])"
  apply (subst add_sample_states.simps)
  apply (simp add: interpolated_sample_def lower_bound_def imu_state_at_def Let_def
      one_Quaterniond_def zero_Vector3d_def)
  apply (subst add_sample_states.simps)
  apply simp
  done

lemma last_append_same:
  assumes "xs \<noteq> []" and "\<forall>s \<in> set ys. f s = f (last xs)"
  shows "f (last (xs @ ys)) = f (last xs)"
proof (cases "ys = []")
  case True
  then show ?thesis by simp
next
  case False
  then have "last (xs @ ys) = last ys" "last ys \<in> set ys" by simp_all
  with assms(2) show ?thesis by simp
qed

text \<open>
  Claim C6. On an estimator that has not been initialized (flag clear, both window deques
  empty) and buffers at least two IMU samples \<open>m0\<close>, \<open>m1\<close>, with \<open>dt = 1 / imu_rate\<close> and a
  first acceleration that is not the zero vector (so that \<open>acc\<^sub>0 / \<parallel>acc\<^sub>0\<parallel>\<close> is defined),
  the predictor gets through blocks 1 and 2; the window then starts with state 0 at the
  timestamp of \<open>m0\<close> with identity rotation and zero position and state 1 at the timestamp
  of \<open>m1\<close> with rotation \<open>Exp (dt \<cdot> \<onehalf> \<cdot> (gyr\<^sub>0 + gyr\<^sub>1))\<close> and zero position, and the sample
  deque holds exactly one state: the constructed object with the timestamp of state 0, zero
  biases, \<open>grav = - gravity_norm \<cdot> acc\<^sub>0 / \<parallel>acc\<^sub>0\<parallel>\<close>, and the rotation and position of
  state 0. When the whole predictor returns, the flag is set, the IMU states are these, and
  the created sample state is the first of the sample deque.
\<close>

theorem Predict_initializes_window:
  assumes "\<not> init_sld_win this"
    and "imu_states_sld_win this = []" and "sample_states_sld_win this = []"
    and "imu_buff this = m0 # m1 # rest"
    and "linear_acceleration m0 \<noteq> 0"
    and "dt = 1 / imu_rate (config this)"
    and "state0 = \<lparr>i_timestamp = d_timestamp m0, acc = linear_acceleration m0,
                    gyr = angular_velocity m0, i_pos = 0, i_rot = 1\<rparr>"
    and "state1 = \<lparr>i_timestamp = d_timestamp m1, acc = linear_acceleration m1,
                    gyr = angular_velocity m1, i_pos = 0,
                    i_rot = Exp (dt *\<^sub>R ((1 / 2) *\<^sub>R (angular_velocity m0 + angular_velocity m1)))\<rparr>"
    and "sample0 = new_ss\<lparr>timestamp := i_timestamp state0, ba := 0, bg := 0,
                     grav := (- gravity_norm (config this))
                               *\<^sub>R (linear_acceleration m0 /\<^sub>R vnorm (linear_acceleration m0)),
                     rot := i_rot state0, pos := i_pos state0\<rparr>"
  shows "\<exists>this2. PredictImuStates Exp new_ss this end_time = Inr this2
       \<and> init_sld_win this2
       \<and> take 2 (imu_states_sld_win this2) = [state0, state1]
       \<and> sample_states_sld_win this2 = [sample0]
       \<and> (\<forall>this3. PredictImuStatesAndSampleStates slerp Exp new_ss this end_time = Some (Inr this3)
             \<longrightarrow> init_sld_win this3
                 \<and> take 2 (imu_states_sld_win this3) = [state0, state1]
                 \<and> (\<exists>later. sample_states_sld_win this3 = sample0 # later))"
proof -
  let ?ss0 = "first_sample_state new_ss (gravity_norm (config this)) state0"
  let ?this1 = "this\<lparr>imu_buff := rest, imu_states_sld_win := [state0, state1],
                     sample_states_sld_win := [?ss0], init_sld_win := True\<rparr>"
  have init: "init_window Exp new_ss dt this = Inr ?this1"
    using init_window_result [OF assms(4), of Exp new_ss dt] assms(2,3,7,8) by simp
  from predict_imu_states_spec [of "[state0, state1]" rest Exp dt "ba ?ss0" "bg ?ss0" "grav ?ss0" end_time]
  obtain n win' where
    p: "predict_imu_states Exp dt (ba ?ss0) (bg ?ss0) (grav ?ss0) end_time rest [state0, state1]
          = Inr (drop n rest, win')" and
    t: "take (length [state0, state1]) win' = [state0, state1]"
    by auto
  let ?this2 = "?this1\<lparr>imu_buff := drop n rest, imu_states_sld_win := win'\<rparr>"
  have r: "PredictImuStates Exp new_ss this end_time = Inr ?this2"
    using assms(1,4,6) init p by (simp add: PredictImuStates_def Let_def)
  have s: "?ss0 = sample0"
    using assms(5,7,9) by (simp add: first_sample_state_def normalized_nonzero)
  have t2: "take 2 win' = [state0, state1]"
    using t by (simp add: numeral_2_eq_2)
  have full: "\<forall>this3. PredictImuStatesAndSampleStates slerp Exp new_ss this end_time = Some (Inr this3)
             \<longrightarrow> init_sld_win this3
                 \<and> take 2 (imu_states_sld_win this3) = [state0, state1]
                 \<and> (\<exists>later. sample_states_sld_win this3 = sample0 # later)"
  proof (intro allI impI)
    fix this3
    assume "PredictImuStatesAndSampleStates slerp Exp new_ss this end_time = Some (Inr this3)"
    from PredictImuStatesAndSampleStates_frame [OF r this] s t2
    show "init_sld_win this3
                 \<and> take 2 (imu_states_sld_win this3) = [state0, state1]
                 \<and> (\<exists>later. sample_states_sld_win this3 = sample0 # later)"
      by auto
  qed
  show ?thesis
  proof (intro exI [of _ ?this2] conjI)
    show "PredictImuStates Exp new_ss this end_time = Inr ?this2" by (rule r)
    show "init_sld_win ?this2" by simp
    show "take 2 (imu_states_sld_win ?this2) = [state0, state1]" using t2 by simp
    show "sample_states_sld_win ?this2 = [sample0]" using s by simp
    show "\<forall>this3. PredictImuStatesAndSampleStates slerp Exp new_ss this end_time = Some (Inr this3)
             \<longrightarrow> init_sld_win this3
                 \<and> take 2 (imu_states_sld_win this3) = [state0, state1]
                 \<and> (\<exists>later. sample_states_sld_win this3 = sample0 # later)"
      by (rule full)
  qed
qed

text \<open>
  The first end-to-end scenario of the spec: samples at 0.00 and 0.01 with acceleration
  (0, 0, 9.81) and no rotation rate, at 100 Hz. The predictor is run up to 0.01, so that
  block 3 has no sample state to add.
\<close>

theorem Predict_initializes_window_witness:
  "PredictImuStatesAndSampleStates lerp Exp_first_order (sample_at 7) odom_fresh (1 / 100)
     = Some (Inr (odom0\<lparr>imu_states_sld_win := [imu_state_at 0 0 1, imu_state_at (1 / 100) 0 1],
                        sample_states_sld_win :=
                          [(sample_at 7)\<lparr>timestamp := 0, ba := 0, bg := 0,
                                         grav := Vec3 0 0 (- 981 / 100), rot := 1, pos := 0\<rparr>],
                        init_sld_win := True\<rparr>))
   \<and> (\<exists>this2. PredictImuStates Exp_first_order (sample_at 7) odom_fresh (1 / 100) = Inr this2
       \<and> init_sld_win this2
       \<and> take 2 (imu_states_sld_win this2) = [imu_state_at 0 0 1, imu_state_at (1 / 100) 0 1]
       \<and> sample_states_sld_win this2 =
           [(sample_at 7)\<lparr>timestamp := 0, ba := 0, bg := 0, grav := Vec3 0 0 (- 981 / 100),
                          rot := 1, pos := 0\<rparr>])"
proof -
  have sq: "sqrt (962361 / 10000) = (981 / 100 :: real)"
    by (rule real_sqrt_unique) (simp_all add: power2_eq_square)
  have n: "vnorm (Vec3 0 0 (981 / 100)) = 981 / 100" by (simp add: vnorm_def sq)
  have nn: "normalized (Vec3 0 0 (981 / 100)) = Vec3 0 0 1"
    by (simp add: normalized_def sq)
  have s0: "imu_state_at 0 0 1
      = \<lparr>i_timestamp = d_timestamp (imu_msg_at 0 0), acc = linear_acceleration (imu_msg_at 0 0),
         gyr = angular_velocity (imu_msg_at 0 0), i_pos = 0, i_rot = 1\<rparr>"
    by (simp add: imu_msg_at_def imu_state_at_def)
  have s1: "imu_state_at (1 / 100) 0 1
      = \<lparr>i_timestamp = d_timestamp (imu_msg_at (1 / 100) 0),
         acc = linear_acceleration (imu_msg_at (1 / 100) 0),
         gyr = angular_velocity (imu_msg_at (1 / 100) 0), i_pos = 0,
         i_rot = Exp_first_order ((1 / 100) *\<^sub>R ((1 / 2) *\<^sub>R
                (angular_velocity (imu_msg_at 0 0) + angular_velocity (imu_msg_at (1 / 100) 0))))\<rparr>"
    by (simp add: imu_msg_at_def imu_state_at_def zero_Vector3d_def one_Quaterniond_def)
  have g: "(sample_at 7)\<lparr>timestamp := 0, ba := 0, bg := 0, grav := Vec3 0 0 (- 981 / 100),
                          rot := 1, pos := 0\<rparr>
      = (sample_at 7)\<lparr>timestamp := i_timestamp (imu_state_at 0 0 1), ba := 0, bg := 0,
           grav := (- gravity_norm (config odom_fresh))
             *\<^sub>R (linear_acceleration (imu_msg_at 0 0) /\<^sub>R vnorm (linear_acceleration (imu_msg_at 0 0))),
           rot := i_rot (imu_state_at 0 0 1), pos := i_pos (imu_state_at 0 0 1)\<rparr>"
    by (simp add: odom_fresh_def odom0_def imu_msg_at_def imu_state_at_def n)
  have h1: "\<not> init_sld_win odom_fresh" by (simp add: odom_fresh_def odom0_def)
  have h2: "imu_states_sld_win odom_fresh = []" by (simp add: odom_fresh_def odom0_def)
  have h3: "sample_states_sld_win odom_fresh = []" by (simp add: odom_fresh_def odom0_def)
  have h4: "imu_buff odom_fresh = imu_msg_at 0 0 # imu_msg_at (1 / 100) 0 # []"
    by (simp add: odom_fresh_def)
  have h5: "linear_acceleration (imu_msg_at 0 0) \<noteq> 0"
    by (simp add: imu_msg_at_def zero_Vector3d_def)
  have h6: "1 / 100 = 1 / imu_rate (config odom_fresh)" by (simp add: odom_fresh_def odom0_def)
  have blocks12: "PredictImuStates Exp_first_order (sample_at 7) odom_fresh (1 / 100)
     = Inr (odom0\<lparr>imu_states_sld_win := [imu_state_at 0 0 1, imu_state_at (1 / 100) 0 1],
                  sample_states_sld_win :=
                    [(sample_at 7)\<lparr>timestamp := 0, ba := 0, bg := 0,
                                   grav := Vec3 0 0 (- 981 / 100), rot := 1, pos := 0\<rparr>],
                  init_sld_win := True\<rparr>)"
    by (simp add: PredictImuStates_def init_window_def init_imu_state_def first_sample_state_def
        odom_fresh_def odom0_def imu_msg_at_def imu_state_at_def nn zero_Vector3d_def
        one_Quaterniond_def Let_def)
  have full: "PredictImuStatesAndSampleStates lerp Exp_first_order (sample_at 7) odom_fresh (1 / 100)
     = Some (Inr (odom0\<lparr>imu_states_sld_win := [imu_state_at 0 0 1, imu_state_at (1 / 100) 0 1],
                        sample_states_sld_win :=
                          [(sample_at 7)\<lparr>timestamp := 0, ba := 0, bg := 0,
                                         grav := Vec3 0 0 (- 981 / 100), rot := 1, pos := 0\<rparr>],
                        init_sld_win := True\<rparr>))"
    unfolding PredictImuStatesAndSampleStates_def blocks12
    by (subst add_sample_states.simps) (simp add: odom0_def Let_def)
  from Predict_initializes_window [where Exp = Exp_first_order and new_ss = "sample_at 7"
      and slerp = lerp and end_time = "1 / 100", OF h1 h2 h3 h4 h5 h6 s0 s1 g]
  obtain this2 where
    "PredictImuStates Exp_first_order (sample_at 7) odom_fresh (1 / 100) = Inr this2"
    "init_sld_win this2"
    "take 2 (imu_states_sld_win this2) = [imu_state_at 0 0 1, imu_state_at (1 / 100) 0 1]"
    "sample_states_sld_win this2 =
           [(sample_at 7)\<lparr>timestamp := 0, ba := 0, bg := 0, grav := Vec3 0 0 (- 981 / 100),
                          rot := 1, pos := 0\<rparr>]"
    by blast
  with full show ?thesis by blast
qed

text \<open>
  Claim C5. Let the estimator buffer at least two IMU samples and, when it is initialized
  already, hold at least two IMU states and one sample state, and let \<open>dt = 1 / imu_rate\<close>.
  Then the predictor gets through blocks 1 and 2, having consumed a prefix of the buffer
  and appended one IMU state per consumed sample. Every state appended by block 2 has an
  index \<open>i \<ge> 2\<close>, carries the rate and acceleration of its sample, and obeys the recurrence
  \<open>integrates\<close> with \<open>ba\<close>, \<open>bg\<close>, \<open>grav\<close> of the latest sample state: its rotation is
  \<open>rot\<^sub>i\<^sub>-\<^sub>1 \<cdot> Exp ((\<onehalf> \<cdot> (gyr\<^sub>i\<^sub>-\<^sub>1 + gyr\<^sub>i) - bg) \<cdot> dt)\<close> and its position is
  \<open>2 \<cdot> pos\<^sub>i\<^sub>-\<^sub>1 - pos\<^sub>i\<^sub>-\<^sub>2 + (rot\<^sub>i\<^sub>-\<^sub>2 \<cdot> (acc\<^sub>i\<^sub>-\<^sub>2 - ba) + grav) \<cdot> dt\<^sup>2\<close>. When the whole
  predictor returns, the IMU states are these, and the latest sample state, also when block
  3 has added it, has the same \<open>ba\<close>, \<open>bg\<close> and \<open>grav\<close>.
\<close>

theorem Predict_integrates_imu_states:
  assumes "2 \<le> length (imu_buff this)"
    and "init_sld_win this \<longrightarrow>
           2 \<le> length (imu_states_sld_win this) \<and> sample_states_sld_win this \<noteq> []"
    and "dt = 1 / imu_rate (config this)"
  shows "\<exists>this2 n. PredictImuStates Exp new_ss this end_time = Inr this2
       \<and> sample_states_sld_win this2 \<noteq> []
       \<and> n \<le> length (imu_buff this) \<and> imu_buff this2 = drop n (imu_buff this)
       \<and> length (imu_states_sld_win this2) = length (imu_states_sld_win this) + n
       \<and> (\<forall>i. (if init_sld_win this then 0 else 2) + length (imu_states_sld_win this) \<le> i
               \<and> i < length (imu_states_sld_win this2) \<longrightarrow>
             2 \<le> i
             \<and> integrates Exp dt (ba (last (sample_states_sld_win this2)))
                 (bg (last (sample_states_sld_win this2))) (grav (last (sample_states_sld_win this2)))
                 (imu_states_sld_win this2) i
             \<and> gyr (imu_states_sld_win this2 ! i)
                 = angular_velocity (imu_buff this ! (i - length (imu_states_sld_win this)))
             \<and> acc (imu_states_sld_win this2 ! i)
                 = linear_acceleration (imu_buff this ! (i - length (imu_states_sld_win this))))
       \<and> (\<forall>this3. PredictImuStatesAndSampleStates slerp Exp new_ss this end_time = Some (Inr this3)
             \<longrightarrow> imu_states_sld_win this3 = imu_states_sld_win this2
                 \<and> ba (last (sample_states_sld_win this3)) = ba (last (sample_states_sld_win this2))
                 \<and> bg (last (sample_states_sld_win this3)) = bg (last (sample_states_sld_win this2))
                 \<and> grav (last (sample_states_sld_win this3))
                     = grav (last (sample_states_sld_win this2)))"
proof -
  let ?k = "length (imu_states_sld_win this)"
  obtain m0 m1 rest where buff: "imu_buff this = m0 # m1 # rest"
    using assms(1) by (cases "imu_buff this"; cases "tl (imu_buff this)") auto
  obtain this1 d where
    s1: "(if \<not> init_sld_win this then init_window Exp new_ss dt this else Inr this) = Inr this1" and
    b1: "imu_buff this1 = drop d (imu_buff this)" and
    d: "d = (if init_sld_win this then 0 else 2)" and
    w1: "length (imu_states_sld_win this1) = ?k + d" and
    ne: "sample_states_sld_win this1 \<noteq> []"
  proof (cases "init_sld_win this")
    case True
    with assms(2) that [of this 0] show ?thesis by simp
  next
    case False
    with init_window_result [OF buff, of Exp new_ss dt] buff that [of _ 2] show ?thesis by simp
  qed
  let ?l = "last (sample_states_sld_win this1)"
  from w1 assms(2) d have "2 \<le> length (imu_states_sld_win this1)" by (simp split: if_splits)
  from predict_imu_states_spec [OF this, of "imu_buff this1" Exp dt "ba ?l" "bg ?l" "grav ?l" end_time]
  obtain n win' where
    n: "n \<le> length (imu_buff this1)" and
    p: "predict_imu_states Exp dt (ba ?l) (bg ?l) (grav ?l) end_time (imu_buff this1)
          (imu_states_sld_win this1) = Inr (drop n (imu_buff this1), win')" and
    l: "length win' = length (imu_states_sld_win this1) + n" and
    a: "\<forall>i. length (imu_states_sld_win this1) \<le> i \<and> i < length win' \<longrightarrow>
          integrates Exp dt (ba ?l) (bg ?l) (grav ?l) win' i
          \<and> i_timestamp (win' ! i) = d_timestamp (imu_buff this1 ! (i - length (imu_states_sld_win this1)))
          \<and> acc (win' ! i) = linear_acceleration (imu_buff this1 ! (i - length (imu_states_sld_win this1)))
          \<and> gyr (win' ! i) = angular_velocity (imu_buff this1 ! (i - length (imu_states_sld_win this1)))"
    by blast
  let ?this2 = "this1\<lparr>imu_buff := drop n (imu_buff this1), imu_states_sld_win := win'\<rparr>"
  have r: "PredictImuStates Exp new_ss this end_time = Inr ?this2"
    unfolding PredictImuStates_def Let_def assms(3) [symmetric] s1
    using assms(1) ne p by simp
  have dl: "d \<le> length (imu_buff this)" using d assms(1) by simp
  have all: "\<forall>i. d + ?k \<le> i \<and> i < length win' \<longrightarrow>
             2 \<le> i
             \<and> integrates Exp dt (ba ?l) (bg ?l) (grav ?l) win' i
             \<and> gyr (win' ! i) = angular_velocity (imu_buff this ! (i - ?k))
             \<and> acc (win' ! i) = linear_acceleration (imu_buff this ! (i - ?k))"
  proof (intro allI impI)
    fix i assume i: "d + ?k \<le> i \<and> i < length win'"
    with w1 have i1: "length (imu_states_sld_win this1) \<le> i \<and> i < length win'" by simp
    from i l w1 have "i - (?k + d) < n" by arith
    with n b1 have "i - (?k + d) < length (imu_buff this) - d" by simp
    with dl have "drop d (imu_buff this) ! (i - (?k + d)) = imu_buff this ! (d + (i - (?k + d)))"
      by simp
    moreover from i have "d + (i - (?k + d)) = i - ?k" by simp
    ultimately have "imu_buff this1 ! (i - length (imu_states_sld_win this1)) = imu_buff this ! (i - ?k)"
      using b1 w1 by simp
    moreover from i d assms(2) have "2 \<le> i" by (simp split: if_splits)
    ultimately show "2 \<le> i
             \<and> integrates Exp dt (ba ?l) (bg ?l) (grav ?l) win' i
             \<and> gyr (win' ! i) = angular_velocity (imu_buff this ! (i - ?k))
             \<and> acc (win' ! i) = linear_acceleration (imu_buff this ! (i - ?k))"
      using a i1 by simp
  qed
  have full: "\<forall>this3. PredictImuStatesAndSampleStates slerp Exp new_ss this end_time = Some (Inr this3)
             \<longrightarrow> imu_states_sld_win this3 = imu_states_sld_win ?this2
                 \<and> ba (last (sample_states_sld_win this3)) = ba (last (sample_states_sld_win ?this2))
                 \<and> bg (last (sample_states_sld_win this3)) = bg (last (sample_states_sld_win ?this2))
                 \<and> grav (last (sample_states_sld_win this3))
                     = grav (last (sample_states_sld_win ?this2))"
  proof (intro allI impI)
    fix this3
    assume "PredictImuStatesAndSampleStates slerp Exp new_ss this end_time = Some (Inr this3)"
    from PredictImuStatesAndSampleStates_frame [OF r this] obtain later where
      i: "imu_states_sld_win this3 = imu_states_sld_win ?this2" and
      s: "sample_states_sld_win this3 = sample_states_sld_win ?this2 @ later" and
      f: "\<forall>s \<in> set later. ba s = ba (last (sample_states_sld_win ?this2))
                           \<and> bg s = bg (last (sample_states_sld_win ?this2))
                           \<and> grav s = grav (last (sample_states_sld_win ?this2))"
      by blast
    have ne2: "sample_states_sld_win ?this2 \<noteq> []" using ne by simp
    from f have "ba (last (sample_states_sld_win ?this2 @ later)) = ba (last (sample_states_sld_win ?this2))"
      "bg (last (sample_states_sld_win ?this2 @ later)) = bg (last (sample_states_sld_win ?this2))"
      "grav (last (sample_states_sld_win ?this2 @ later)) = grav (last (sample_states_sld_win ?this2))"
      by (intro last_append_same [OF ne2]; simp)+
    with i s show "imu_states_sld_win this3 = imu_states_sld_win ?this2
                 \<and> ba (last (sample_states_sld_win this3)) = ba (last (sample_states_sld_win ?this2))
                 \<and> bg (last (sample_states_sld_win this3)) = bg (last (sample_states_sld_win ?this2))
                 \<and> grav (last (sample_states_sld_win this3))
                     = grav (last (sample_states_sld_win ?this2))"
      by simp
  qed
  show ?thesis
  proof (intro exI [of _ ?this2] exI [of _ "d + n"] conjI)
    show "PredictImuStates Exp new_ss this end_time = Inr ?this2" by (rule r)
    show "sample_states_sld_win ?this2 \<noteq> []" using ne by simp
    show "d + n \<le> length (imu_buff this)" using n b1 dl by simp
    show "imu_buff ?this2 = drop (d + n) (imu_buff this)" using b1 by (simp add: add.commute)
    show "length (imu_states_sld_win ?this2) = ?k + (d + n)" using l w1 by simp
    show "\<forall>i. (if init_sld_win this then 0 else 2) + ?k \<le> i \<and> i < length (imu_states_sld_win ?this2) \<longrightarrow>
             2 \<le> i
             \<and> integrates Exp dt (ba (last (sample_states_sld_win ?this2)))
                 (bg (last (sample_states_sld_win ?this2))) (grav (last (sample_states_sld_win ?this2)))
                 (imu_states_sld_win ?this2) i
             \<and> gyr (imu_states_sld_win ?this2 ! i) = angular_velocity (imu_buff this ! (i - ?k))
             \<and> acc (imu_states_sld_win ?this2 ! i) = linear_acceleration (imu_buff this ! (i - ?k))"
      using all d by simp
    show "\<forall>this3. PredictImuStatesAndSampleStates slerp Exp new_ss this end_time = Some (Inr this3)
             \<longrightarrow> imu_states_sld_win this3 = imu_states_sld_win ?this2
                 \<and> ba (last (sample_states_sld_win this3)) = ba (last (sample_states_sld_win ?this2))
                 \<and> bg (last (sample_states_sld_win this3)) = bg (last (sample_states_sld_win ?this2))
                 \<and> grav (last (sample_states_sld_win this3))
                     = grav (last (sample_states_sld_win ?this2))"
      by (rule full)
  qed
qed

text \<open>
  A run at 100 Hz from two states at rest, with biases \<open>ba = (0, 0, -0.19)\<close> and
  \<open>bg = (0, 0, 1)\<close>: the samples at 0.02 and 0.03 are consumed, the one at 0.04 stays, and
  block 3 has no sample state to add before 0.03.
\<close>

theorem Predict_integrates_imu_states_witness:
  "PredictImuStatesAndSampleStates lerp Exp_first_order (sample_at 0) odom_run (3 / 100)
     = Some (Inr (odom_run\<lparr>imu_buff := [imu_msg_at (4 / 100) 0], imu_states_sld_win := predicted\<rparr>))
   \<and> integrates Exp_first_order (1 / 100) (Vec3 0 0 (- 19 / 100)) (Vec3 0 0 1) (Vec3 0 0 (- 981 / 100))
         predicted 2
   \<and> integrates Exp_first_order (1 / 100) (Vec3 0 0 (- 19 / 100)) (Vec3 0 0 1) (Vec3 0 0 (- 981 / 100))
         predicted 3"
proof -
  let ?res = "odom_run\<lparr>imu_buff := [imu_msg_at (4 / 100) 0], imu_states_sld_win := predicted\<rparr>"
  have r: "PredictImuStates Exp_first_order (sample_at 0) odom_run (3 / 100) = Inr ?res"
    by (simp add: PredictImuStates_def odom_run_def odom0_def predict_state_def predicted_def
        imu_state_at_def imu_msg_at_def sample_at_def zero_Vector3d_def one_Quaterniond_def Let_def)
  have full: "PredictImuStatesAndSampleStates lerp Exp_first_order (sample_at 0) odom_run (3 / 100)
     = Some (Inr ?res)"
    unfolding PredictImuStatesAndSampleStates_def r
    by (subst add_sample_states.simps) (simp add: odom_run_def odom0_def sample_at_def Let_def)
  have h1: "2 \<le> length (imu_buff odom_run)" by (simp add: odom_run_def)
  have h2: "init_sld_win odom_run \<longrightarrow>
              2 \<le> length (imu_states_sld_win odom_run) \<and> sample_states_sld_win odom_run \<noteq> []"
    by (simp add: odom_run_def)
  have h3: "1 / 100 = 1 / imu_rate (config odom_run)" by (simp add: odom_run_def odom0_def)
  from Predict_integrates_imu_states [where Exp = Exp_first_order and new_ss = "sample_at 0"
      and slerp = lerp and end_time = "3 / 100", OF h1 h2 h3] r
  have "\<forall>i. (if init_sld_win odom_run then 0 else 2) + length (imu_states_sld_win odom_run) \<le> i
               \<and> i < length (imu_states_sld_win ?res) \<longrightarrow>
             integrates Exp_first_order (1 / 100) (ba (last (sample_states_sld_win ?res)))
                 (bg (last (sample_states_sld_win ?res))) (grav (last (sample_states_sld_win ?res)))
                 (imu_states_sld_win ?res) i"
    by auto
  then have "\<forall>i. 2 \<le> i \<and> i < 4 \<longrightarrow>
      integrates Exp_first_order (1 / 100) (Vec3 0 0 (- 19 / 100)) (Vec3 0 0 1)
        (Vec3 0 0 (- 981 / 100)) predicted i"
    by (simp add: odom_run_def sample_at_def predicted_def)
  with full show ?thesis by simp
qed

section \<open>Sweep builder\<close>

lemma drain_sweep_take_drop:
  "drain_sweep e buff sweep =
     (sweep @ takeWhile (\<lambda>p. time p < e) buff, dropWhile (\<lambda>p. time p < e) buff)"
  by (induction buff arbitrary: sweep) simp_all

lemma sorted_time_takeWhile_filter:
  "sorted (map time buff) \<Longrightarrow> takeWhile (\<lambda>p. time p < e) buff = filter (\<lambda>p. time p < e) buff"
proof (induction buff)
  case Nil
  then show ?case by simp
next
  case (Cons p buff)
  show ?case
  proof (cases "time p < e")
    case True
    with Cons show ?thesis by simp
  next
    case False
    with Cons.prems have "\<forall>q \<in> set buff. \<not> time q < e" by auto
    then have "filter (\<lambda>p. time p < e) buff = []" by (simp add: filter_empty_conv)
    with False show ?thesis by simp
  qed
qed

lemma sorted_time_dropWhile_filter:
  "sorted (map time buff) \<Longrightarrow> dropWhile (\<lambda>p. time p < e) buff = filter (\<lambda>p. \<not> time p < e) buff"
proof (induction buff)
  case Nil
  then show ?case by simp
next
  case (Cons p buff)
  show ?case
  proof (cases "time p < e")
    case True
    with Cons show ?thesis by simp
  next
    case False
    with Cons.prems have "\<forall>q \<in> set buff. \<not> time q < e" by auto
    then have "filter (\<lambda>p. \<not> time p < e) buff = buff" by (simp add: filter_id_conv)
    with False show ?thesis by simp
  qed
qed

text \<open>
  Claim C7. For a non-empty point buffer with non-decreasing timestamps, \<^verbatim>\<open>BuildSweep\<close>
  returns as the sweep exactly the points earlier than \<open>sweep_endtime\<close>, in their order,
  and leaves in the buffer exactly the points at or after \<open>sweep_endtime\<close>; so does the
  caller, which takes for \<open>sweep_endtime\<close> the timestamp of the latest sample state.
\<close>

theorem BuildSweep_moves_earlier_points:
  assumes "points_buff this \<noteq> []"
    and "sorted (map time (points_buff this))"
    and "sample_states_sld_win this \<noteq> []"
    and "latest = timestamp (last (sample_states_sld_win this))"
  shows "BuildSweep (points_buff this) sweep_endtime =
           Inr (filter (\<lambda>p. time p < sweep_endtime) (points_buff this),
                filter (\<lambda>p. sweep_endtime \<le> time p) (points_buff this))
       \<and> build_sweep_call this =
           Inr (filter (\<lambda>p. time p < latest) (points_buff this),
                this\<lparr>points_buff := filter (\<lambda>p. latest \<le> time p) (points_buff this)\<rparr>)"
proof -
  have "filter (\<lambda>p. \<not> time p < e) (points_buff this)
      = filter (\<lambda>p. e \<le> time p) (points_buff this)" for e
    by (simp add: not_less)
  with assms show ?thesis
    by (simp add: BuildSweep_def build_sweep_call_def Let_def drain_sweep_take_drop
        sorted_time_takeWhile_filter sorted_time_dropWhile_filter)
qed

text \<open>
  Points at 0.00, 0.02, 0.10 and 0.11 with the latest sample state at 0.10: the first two
  enter the sweep, the point at 0.10 and the one after it stay.
\<close>

theorem BuildSweep_moves_earlier_points_witness:
  "points_buff (odom0\<lparr>points_buff := [point_at 0, point_at (2 / 100), point_at (1 / 10), point_at (11 / 100)],
                     sample_states_sld_win := [sample_at 0, sample_at (1 / 10)]\<rparr>) \<noteq> []
   \<and> BuildSweep [point_at 0, point_at (2 / 100), point_at (1 / 10), point_at (11 / 100)] (1 / 10)
      = Inr ([point_at 0, point_at (2 / 100)], [point_at (1 / 10), point_at (11 / 100)])
   \<and> build_sweep_call (odom0\<lparr>points_buff := [point_at 0, point_at (2 / 100), point_at (1 / 10), point_at (11 / 100)],
                     sample_states_sld_win := [sample_at 0, sample_at (1 / 10)]\<rparr>)
      = Inr ([point_at 0, point_at (2 / 100)],
             odom0\<lparr>points_buff := [point_at (1 / 10), point_at (11 / 100)],
                   sample_states_sld_win := [sample_at 0, sample_at (1 / 10)]\<rparr>)"
  using BuildSweep_moves_earlier_points
    [of "odom0\<lparr>points_buff := [point_at 0, point_at (2 / 100), point_at (1 / 10), point_at (11 / 100)],
                     sample_states_sld_win := [sample_at 0, sample_at (1 / 10)]\<rparr>" "1 / 10" "1 / 10"]
  by (simp add: point_at_def sample_at_def odom0_def)

section \<open>Residual assembly\<close>

lemma upper_bound_brackets:
  assumes "0 < upper_bound win v" and "upper_bound win v < length win"
  shows "timestamp (win ! (upper_bound win v - 1)) \<le> v \<and> v < timestamp (win ! upper_bound win v)"
proof -
  let ?P = "\<lambda>s. \<not> v < timestamp s"
  let ?n = "length (takeWhile ?P win)"
  from assms have n: "0 < ?n" "?n < length win" by (simp_all add: upper_bound_def)
  from n(2) have "\<not> ?P (win ! ?n)" by (rule nth_length_takeWhile)
  moreover have "?P (win ! (?n - 1))"
  proof -
    from n have "?n - 1 < ?n" by simp
    then have "takeWhile ?P win ! (?n - 1) = win ! (?n - 1)" by (rule takeWhile_nth)
    moreover have "takeWhile ?P win ! (?n - 1) \<in> set (takeWhile ?P win)" using n by simp
    ultimately show ?thesis by (metis set_takeWhileD)
  qed
  ultimately show ?thesis by (simp add: upper_bound_def not_less)
qed

lemma lidar_residual_spec:
  "lidar_residual win c =
     (if strictly_inside win c then Inr (Some (spec_factor win c)) else Inl CheckFailed)"
proof -
  have le: "upper_bound win v \<le> length win" for v
    by (simp add: upper_bound_def length_takeWhile_le)
  from le [of "s_timestamp (s1 c)"] le [of "s_timestamp (s2 c)"] show ?thesis
    by (auto simp add: lidar_residual_def strictly_inside_def spec_factor_def spec_topology_def
        Let_def)
qed

lemma BuildLidarResiduals_all:
  "BuildLidarResiduals win corrs (problem, residual_ids) =
     (if \<forall>c \<in> set corrs. strictly_inside win c
      then Inr (problem @ map (spec_factor win) corrs,
                residual_ids @ [length problem ..< length problem + length corrs])
      else Inl CheckFailed)"
proof (induction corrs arbitrary: problem residual_ids)
  case Nil
  show ?case by simp
next
  case (Cons c corrs)
  show ?case
  proof (cases "strictly_inside win c")
    case True
    have "[length problem ..< length problem + length (c # corrs)]
            = length problem # [Suc (length problem) ..< Suc (length problem) + length corrs]"
      by (simp add: upt_rec)
    with True Cons.IH [of "problem @ [spec_factor win c]" "residual_ids @ [length problem]"]
    show ?thesis by (simp add: lidar_residual_spec AddResidualBlock_def)
  next
    case False
    then show ?thesis by (simp add: lidar_residual_spec)
  qed
qed

text \<open>
  Claim C4. Let the window have non-decreasing timestamps and let the assembly be called
  on any list of correspondences, on a problem that may already hold blocks. If every
  correspondence has \<open>s1\<close> earlier than \<open>s2\<close> (as every correspondence of the data model
  has) and the upper bounds \<open>r1\<close> of \<open>s1\<close> and \<open>r2\<close> of \<open>s2\<close> strictly inside the window, the
  call adds exactly one residual block for each of them, in their order and with
  consecutive ids. For a correspondence \<open>c\<close> of the list, \<open>L1 = r1 - 1\<close>, \<open>R1 = r1\<close> bracket
  \<open>s1\<close> and \<open>L2 = r2 - 1\<close>, \<open>R2 = r2\<close> bracket \<open>s2\<close>, and its block has the Cauchy loss of
  scale 0.4 and the factor and parameter blocks of the spec's table: \<open>L1, R1, L2, R2\<close> when
  \<open>R1\<close> is earlier than \<open>L2\<close>, \<open>L1, R1, R2\<close> when their timestamps are equal, and \<open>L1, R1\<close>
  when \<open>R1\<close> is later. If some correspondence of the list is not of this kind the call
  aborts on a \<^verbatim>\<open>CHECK\<close>.
\<close>

theorem BuildLidarResiduals_topology:
  assumes "sorted (map timestamp win)"
  shows "BuildLidarResiduals win corrs (problem, residual_ids) =
           (if \<forall>c \<in> set corrs. strictly_inside win c
            then Inr (problem @ map (spec_factor win) corrs,
                      residual_ids @ [length problem ..< length problem + length corrs])
            else Inl CheckFailed)
       \<and> (\<forall>c r1 r2. strictly_inside win c
             \<and> r1 = upper_bound win (s_timestamp (s1 c))
             \<and> r2 = upper_bound win (s_timestamp (s2 c)) \<longrightarrow>
            timestamp (win ! (r1 - 1)) \<le> s_timestamp (s1 c) \<and> s_timestamp (s1 c) < timestamp (win ! r1)
          \<and> timestamp (win ! (r2 - 1)) \<le> s_timestamp (s2 c) \<and> s_timestamp (s2 c) < timestamp (win ! r2)
          \<and> cost_function (spec_factor win c)
              = SurfelMatchBinaryFactor
                  (if timestamp (win ! r1) < timestamp (win ! (r2 - 1)) then 0
                   else if timestamp (win ! r1) = timestamp (win ! (r2 - 1)) then 1 else 2)
                  (s1 c) (r1 - 1) r1 (s2 c) (r2 - 1) r2
          \<and> loss_function (spec_factor win c) = CauchyLoss 0.4
          \<and> parameter_blocks (spec_factor win c)
              = (if timestamp (win ! r1) < timestamp (win ! (r2 - 1)) then [r1 - 1, r1, r2 - 1, r2]
                 else if timestamp (win ! r1) = timestamp (win ! (r2 - 1)) then [r1 - 1, r1, r2]
                 else [r1 - 1, r1]))"
proof (intro conjI allI impI)
  show "BuildLidarResiduals win corrs (problem, residual_ids) =
           (if \<forall>c \<in> set corrs. strictly_inside win c
            then Inr (problem @ map (spec_factor win) corrs,
                      residual_ids @ [length problem ..< length problem + length corrs])
            else Inl CheckFailed)"
    by (rule BuildLidarResiduals_all)
next
  fix c r1 r2
  assume a: "strictly_inside win c \<and> r1 = upper_bound win (s_timestamp (s1 c))
             \<and> r2 = upper_bound win (s_timestamp (s2 c))"
  then have b: "0 < r1" "r1 < length win" "0 < r2" "r2 < length win"
    and r: "r1 = upper_bound win (s_timestamp (s1 c))" "r2 = upper_bound win (s_timestamp (s2 c))"
    by (simp_all add: strictly_inside_def)
  from upper_bound_brackets [of win "s_timestamp (s1 c)"] b r
  show "timestamp (win ! (r1 - 1)) \<le> s_timestamp (s1 c)" "s_timestamp (s1 c) < timestamp (win ! r1)"
    by simp_all
  from upper_bound_brackets [of win "s_timestamp (s2 c)"] b r
  show "timestamp (win ! (r2 - 1)) \<le> s_timestamp (s2 c)" "s_timestamp (s2 c) < timestamp (win ! r2)"
    by simp_all
  from r show "cost_function (spec_factor win c)
              = SurfelMatchBinaryFactor
                  (if timestamp (win ! r1) < timestamp (win ! (r2 - 1)) then 0
                   else if timestamp (win ! r1) = timestamp (win ! (r2 - 1)) then 1 else 2)
                  (s1 c) (r1 - 1) r1 (s2 c) (r2 - 1) r2"
    by (simp add: spec_factor_def spec_topology_def Let_def)
  from r show "loss_function (spec_factor win c) = CauchyLoss 0.4"
    by (simp add: spec_factor_def Let_def)
  from r show "parameter_blocks (spec_factor win c)
              = (if timestamp (win ! r1) < timestamp (win ! (r2 - 1)) then [r1 - 1, r1, r2 - 1, r2]
                 else if timestamp (win ! r1) = timestamp (win ! (r2 - 1)) then [r1 - 1, r1, r2]
                 else [r1 - 1, r1])"
    by (simp add: spec_factor_def spec_topology_def Let_def)
qed

text \<open>
  One call on three correspondences, one for each topology, on a window with samples at
  0, 1, 2, 3 and a problem that holds one block already; and a call that aborts because
  its second correspondence lies in the last interval of no sample.
\<close>

theorem BuildLidarResiduals_topology_witness:
  "sorted (map timestamp window4)
   \<and> BuildLidarResiduals window4
       [corr_at (1 / 2) (5 / 2), corr_at (1 / 2) (3 / 2), corr_at (1 / 2) (3 / 4)]
       ([\<lparr>cost_function = SurfelMatchBinaryFactor 2 (surfel_at 1) 1 2 (surfel_at (3 / 2)) 1 2,
          loss_function = CauchyLoss 0.4, parameter_blocks = [1, 2]\<rparr>], [0]) =
     Inr ([\<lparr>cost_function = SurfelMatchBinaryFactor 2 (surfel_at 1) 1 2 (surfel_at (3 / 2)) 1 2,
            loss_function = CauchyLoss 0.4, parameter_blocks = [1, 2]\<rparr>,
           \<lparr>cost_function = SurfelMatchBinaryFactor 0 (surfel_at (1 / 2)) 0 1 (surfel_at (5 / 2)) 2 3,
            loss_function = CauchyLoss 0.4, parameter_blocks = [0, 1, 2, 3]\<rparr>,
           \<lparr>cost_function = SurfelMatchBinaryFactor 1 (surfel_at (1 / 2)) 0 1 (surfel_at (3 / 2)) 1 2,
            loss_function = CauchyLoss 0.4, parameter_blocks = [0, 1, 2]\<rparr>,
           \<lparr>cost_function = SurfelMatchBinaryFactor 2 (surfel_at (1 / 2)) 0 1 (surfel_at (3 / 4)) 0 1,
            loss_function = CauchyLoss 0.4, parameter_blocks = [0, 1]\<rparr>], [0, 1, 2, 3])
   \<and> BuildLidarResiduals window4 [corr_at (1 / 2) (5 / 2), corr_at (1 / 2) 3] ([], [])
       = Inl CheckFailed"
proof -
  have s: "sorted (map timestamp window4)"
    by (simp add: window4_def sample_at_def)
  have u: "upper_bound window4 (1 / 2) = 1" "upper_bound window4 (3 / 4) = 1"
    "upper_bound window4 (3 / 2) = 2" "upper_bound window4 (5 / 2) = 3"
    "upper_bound window4 3 = 4" "length window4 = 4"
    by (simp_all add: upper_bound_def window4_def sample_at_def)
  have n: "timestamp (window4 ! 0) = 0" "timestamp (window4 ! Suc 0) = 1"
    "timestamp (window4 ! 2) = 2" "timestamp (window4 ! 3) = 3"
    by (simp_all add: window4_def sample_at_def)
  have i: "strictly_inside window4 (corr_at (1 / 2) (5 / 2))"
    "strictly_inside window4 (corr_at (1 / 2) (3 / 2))"
    "strictly_inside window4 (corr_at (1 / 2) (3 / 4))"
    "\<not> strictly_inside window4 (corr_at (1 / 2) 3)"
    by (simp_all add: strictly_inside_def corr_at_def surfel_at_def u)
  have f: "spec_factor window4 (corr_at (1 / 2) (5 / 2))
             = \<lparr>cost_function = SurfelMatchBinaryFactor 0 (surfel_at (1 / 2)) 0 1 (surfel_at (5 / 2)) 2 3,
                loss_function = CauchyLoss 0.4, parameter_blocks = [0, 1, 2, 3]\<rparr>"
    "spec_factor window4 (corr_at (1 / 2) (3 / 2))
             = \<lparr>cost_function = SurfelMatchBinaryFactor 1 (surfel_at (1 / 2)) 0 1 (surfel_at (3 / 2)) 1 2,
                loss_function = CauchyLoss 0.4, parameter_blocks = [0, 1, 2]\<rparr>"
    "spec_factor window4 (corr_at (1 / 2) (3 / 4))
             = \<lparr>cost_function = SurfelMatchBinaryFactor 2 (surfel_at (1 / 2)) 0 1 (surfel_at (3 / 4)) 0 1,
                loss_function = CauchyLoss 0.4, parameter_blocks = [0, 1]\<rparr>"
    by (simp_all add: spec_factor_def spec_topology_def corr_at_def surfel_at_def u n Let_def)
  from BuildLidarResiduals_topology [OF s,
      of "[corr_at (1 / 2) (5 / 2), corr_at (1 / 2) (3 / 2), corr_at (1 / 2) (3 / 4)]"
         "[\<lparr>cost_function = SurfelMatchBinaryFactor 2 (surfel_at 1) 1 2 (surfel_at (3 / 2)) 1 2,
            loss_function = CauchyLoss 0.4, parameter_blocks = [1, 2]\<rparr>]" "[0]"]
  have a: "BuildLidarResiduals window4
       [corr_at (1 / 2) (5 / 2), corr_at (1 / 2) (3 / 2), corr_at (1 / 2) (3 / 4)]
       ([\<lparr>cost_function = SurfelMatchBinaryFactor 2 (surfel_at 1) 1 2 (surfel_at (3 / 2)) 1 2,
          loss_function = CauchyLoss 0.4, parameter_blocks = [1, 2]\<rparr>], [0]) =
     Inr ([\<lparr>cost_function = SurfelMatchBinaryFactor 2 (surfel_at 1) 1 2 (surfel_at (3 / 2)) 1 2,
            loss_function = CauchyLoss 0.4, parameter_blocks = [1, 2]\<rparr>,
           \<lparr>cost_function = SurfelMatchBinaryFactor 0 (surfel_at (1 / 2)) 0 1 (surfel_at (5 / 2)) 2 3,
            loss_function = CauchyLoss 0.4, parameter_blocks = [0, 1, 2, 3]\<rparr>,
           \<lparr>cost_function = SurfelMatchBinaryFactor 1 (surfel_at (1 / 2)) 0 1 (surfel_at (3 / 2)) 1 2,
            loss_function = CauchyLoss 0.4, parameter_blocks = [0, 1, 2]\<rparr>,
           \<lparr>cost_function = SurfelMatchBinaryFactor 2 (surfel_at (1 / 2)) 0 1 (surfel_at (3 / 4)) 0 1,
            loss_function = CauchyLoss 0.4, parameter_blocks = [0, 1]\<rparr>], [0, 1, 2, 3])"
    by (simp add: i f upt_rec)
  from BuildLidarResiduals_topology [OF s, of "[corr_at (1 / 2) (5 / 2), corr_at (1 / 2) 3]" "[]" "[]"]
  have b: "BuildLidarResiduals window4 [corr_at (1 / 2) (5 / 2), corr_at (1 / 2) 3] ([], [])
       = Inl CheckFailed"
    by (simp add: i)
  from s a b show ?thesis by simp
qed

section \<open>Pinning and Corrector\<close>

lemma update_sample_pose_fields:
  "rot_cor (update_sample_pose Exp s) = 0 \<and> pos_cor (update_sample_pose Exp s) = 0
   \<and> ba_cor (update_sample_pose Exp s) = ba_cor s \<and> bg_cor (update_sample_pose Exp s) = bg_cor s
   \<and> rot (update_sample_pose Exp s) = Exp (rot_cor s) * rot s
   \<and> pos (update_sample_pose Exp s) = pos_cor s + pos s
   \<and> ba (update_sample_pose Exp s) = ba s \<and> bg (update_sample_pose Exp s) = bg s
   \<and> grav (update_sample_pose Exp s) = grav s
   \<and> timestamp (update_sample_pose Exp s) = timestamp s"
  by (simp add: update_sample_pose_def Let_def)

lemma length_coeffs: "length (coeffs v) = 3"
  by (cases v) simp

lemma coeffs_zero: "coeffs 0 = [0, 0, 0]"
  by (simp add: zero_Vector3d_def)

lemma data_cor_update_sample_pose:
  "take 6 (data_cor (update_sample_pose Exp s)) = replicate 6 0
   \<and> drop 6 (data_cor (update_sample_pose Exp s)) = drop 6 (data_cor s)"
  by (simp add: data_cor_def update_sample_pose_fields length_coeffs coeffs_zero numeral_eq_Suc)

text \<open>
  Claim C1, as stated, fails: the Corrector resets only the rotation and position slots.
  A sample state whose bias slot \<open>ba_cor\<close> holds (1, 0, 0) keeps this value in component 6
  of \<open>data_cor\<close> through a pass, and its bias \<open>ba\<close> is not moved by it.
\<close>

theorem Corrector_leaves_bias_corrections:
  "Corrector interp_bspline Exp_first_order rigid_pair lerp keep_pose
      ([(sample_at 0)\<lparr>ba_cor := Vec3 1 0 0\<rparr>], [], [])
     = Inr ([(sample_at 0)\<lparr>rot := Quat 1 0 0 0 * Quat 0 1 0 0, pos := 0 + Vec3 1 2 3,
                           ba_cor := Vec3 1 0 0\<rparr>], [], [])
   \<and> data_cor ((sample_at 0)\<lparr>rot := Quat 1 0 0 0 * Quat 0 1 0 0, pos := 0 + Vec3 1 2 3,
                             ba_cor := Vec3 1 0 0\<rparr>)
       = [0, 0, 0, 0, 0, 0, 1, 0, 0, 0, 0, 0]
   \<and> ba ((sample_at 0)\<lparr>rot := Quat 1 0 0 0 * Quat 0 1 0 0, pos := 0 + Vec3 1 2 3,
                       ba_cor := Vec3 1 0 0\<rparr>)
       \<noteq> ba ((sample_at 0)\<lparr>ba_cor := Vec3 1 0 0\<rparr>) + ba_cor ((sample_at 0)\<lparr>ba_cor := Vec3 1 0 0\<rparr>)"
  by (simp add: Corrector_def UpdateImuPoses_def UpdateSamplePoses_def update_sample_pose_def
      sample_at_def data_cor_def zero_Vector3d_def)

text \<open>
  Claim C1, amended. After a pass of the Corrector that returns, the window has as many
  sample states as before and, for every one of them, the rotation and position slots
  (components 0 to 5 of \<open>data_cor\<close>) are zero, the rotation is \<open>Exp (rot_cor) \<cdot> rot\<close> and the
  position is \<open>pos + pos_cor\<close> of the state before the pass; the bias slots (components 6 to
  11) and the nominals \<open>ba\<close>, \<open>bg\<close> and \<open>grav\<close> are as they were before the pass.
\<close>

theorem Corrector_resets_pose_corrections:
  assumes "Corrector interp Exp R slerp UpdatePose (sample_states, imu_states, surfels)
             = Inr (ss, imus, sfs)"
    and "k < length sample_states"
  shows "length ss = length sample_states
       \<and> take 6 (data_cor (ss ! k)) = replicate 6 0
       \<and> drop 6 (data_cor (ss ! k)) = drop 6 (data_cor (sample_states ! k))
       \<and> rot (ss ! k) = Exp (rot_cor (sample_states ! k)) * rot (sample_states ! k)
       \<and> pos (ss ! k) = pos (sample_states ! k) + pos_cor (sample_states ! k)
       \<and> ba (ss ! k) = ba (sample_states ! k)
       \<and> bg (ss ! k) = bg (sample_states ! k)
       \<and> grav (ss ! k) = grav (sample_states ! k)"
proof -
  from assms(1) have "ss = UpdateSamplePoses Exp sample_states"
    by (auto simp add: Corrector_def split: sum.splits)
  with assms(2) show ?thesis
    by (simp add: UpdateSamplePoses_def update_sample_pose_fields data_cor_update_sample_pose
        add.commute)
qed

theorem Corrector_resets_pose_corrections_witness:
  "Corrector interp_bspline Exp_first_order rigid_pair lerp keep_pose
      ([(sample_at 0)\<lparr>rot_cor := Vec3 0 0 2, pos_cor := Vec3 1 1 1, bg_cor := Vec3 0 3 0\<rparr>], [], [])
    = Inr ([(sample_at 0)\<lparr>rot := Quat 0 1 1 0, pos := Vec3 2 3 4, bg_cor := Vec3 0 3 0\<rparr>], [], [])
   \<and> data_cor ((sample_at 0)\<lparr>rot := Quat 0 1 1 0, pos := Vec3 2 3 4, bg_cor := Vec3 0 3 0\<rparr>)
       = [0, 0, 0, 0, 0, 0, 0, 0, 0, 0, 3, 0]"
proof -
  have r: "Corrector interp_bspline Exp_first_order rigid_pair lerp keep_pose
      ([(sample_at 0)\<lparr>rot_cor := Vec3 0 0 2, pos_cor := Vec3 1 1 1, bg_cor := Vec3 0 3 0\<rparr>], [], [])
    = Inr ([(sample_at 0)\<lparr>rot := Quat 0 1 1 0, pos := Vec3 2 3 4, bg_cor := Vec3 0 3 0\<rparr>], [], [])"
    by (simp add: Corrector_def UpdateImuPoses_def UpdateSamplePoses_def update_sample_pose_def
      sample_at_def zero_Vector3d_def)
  from Corrector_resets_pose_corrections [OF r, of 0] r show ?thesis
    by (simp add: data_cor_def sample_at_def zero_Vector3d_def)
qed






lemma one_times_Quaterniond: "1 * (q :: Quaterniond) = q"
  by (cases q) (simp add: one_Quaterniond_def)

lemma relative_update_cancels: "cancels R a b \<Longrightarrow> relative_update R a b b a = a"
  by (simp add: cancels_def relative_update_def Let_def)

lemma GetCorr_zero:
  assumes z: "\<forall>s \<in> set ss. rot_cor s = 0 \<and> pos_cor s = 0"
    and i: "spline_of_zeros interp (map timestamp ss)"
  shows "GetCorr interp ss t = Inr None \<or> GetCorr interp ss t = Inr (Some (0, 0))"
proof -
  from z have r: "map rot_cor ss = replicate (length ss) 0"
    by (simp add: map_replicate_const [symmetric] cong: map_cong)
  from z have p: "map pos_cor ss = replicate (length ss) 0"
    by (simp add: map_replicate_const [symmetric] cong: map_cong)
  show ?thesis
  proof (cases "interp (map timestamp ss) (replicate (length ss) 0) t")
    case None
    then show ?thesis by (simp add: GetCorr_def r p)
  next
    case (Some v)
    with i have "v = 0" by (simp add: spline_of_zeros_def)
    with Some show ?thesis by (simp add: GetCorr_def r p)
  qed
qed

lemma correct_imu_state_zero:
  assumes z: "\<forall>s \<in> set ss. rot_cor s = 0 \<and> pos_cor s = 0"
    and i: "spline_of_zeros interp (map timestamp ss)"
    and e: "Exp 0 = 1"
  shows "correct_imu_state interp Exp ss k (imus, f, l) = Inr (imus, f, l)
       \<or> correct_imu_state interp Exp ss k (imus, f, l)
           = Inr (imus, if f = - 1 then int k else f, int k)"
  using GetCorr_zero [OF z i, of "i_timestamp (imus ! k)"] e
  by (auto simp add: correct_imu_state_def one_times_Quaterniond)

lemma for_loop_zero:
  assumes z: "\<forall>s \<in> set ss. rot_cor s = 0 \<and> pos_cor s = 0"
    and i: "spline_of_zeros interp (map timestamp ss)"
    and e: "Exp 0 = 1"
  shows "\<forall>k \<in> set ks. k < n \<Longrightarrow> idx_ok n f l \<Longrightarrow>
     \<exists>f' l'. for_loop ks (correct_imu_state interp Exp ss) (imus, f, l) = Inr (imus, f', l')
            \<and> idx_ok n f' l'"
proof (induction ks arbitrary: f l)
  case Nil
  then show ?case by simp
next
  case (Cons k ks)
  from Cons.prems have k: "k < n" by simp
  from correct_imu_state_zero [where Exp = Exp, OF z i e, of k imus f l]
  consider (skip) "correct_imu_state interp Exp ss k (imus, f, l) = Inr (imus, f, l)"
    | (hit) "correct_imu_state interp Exp ss k (imus, f, l)
               = Inr (imus, if f = - 1 then int k else f, int k)"
    by blast
  then show ?case
  proof cases
    case skip
    with Cons show ?thesis by simp
  next
    case hit
    from Cons.prems(2) k have "idx_ok n (if f = - 1 then int k else f) (int k)"
      by (auto simp add: idx_ok_def)
    with Cons.IH [of "if f = - 1 then int k else f" "int k"] Cons.prems(1) hit
    show ?thesis by simp
  qed
qed

lemma fold_update_heading_id:
  "\<forall>k \<in> set ks. Suc k < length imus \<and> cancels R (imus ! k) (imus ! Suc k) \<Longrightarrow>
     fold (update_heading R imus) ks imus = imus"
  by (induction ks) (simp_all add: update_heading_def relative_update_cancels)

lemma fold_update_tailing_id:
  "\<forall>k \<in> set ks. 0 < k \<and> k < length imus \<and> cancels R (imus ! k) (imus ! (k - 1)) \<Longrightarrow>
     fold (update_tailing R imus) ks imus = imus"
  by (induction ks) (simp_all add: update_tailing_def relative_update_cancels)

text \<open>
  Claim C9. Let every sample state have zero \<open>rot_cor\<close> and \<open>pos_cor\<close>. For an interpolator
  that gives zero on zero control values, an \<open>Exp\<close> that maps the zero vector to the
  identity, and rigid-transform operations that obey \<open>a \<cdot> b\<^sup>-\<^sup>1 \<cdot> b = a\<close> on neighbouring
  IMU states, \<^verbatim>\<open>UpdateImuPoses\<close> returns the IMU states it was given: neither the
  interpolated states nor the states extrapolated at the head and the tail change, and so
  the Corrector leaves the IMU deque as it was.
\<close>

theorem UpdateImuPoses_zero_corrections:
  assumes z: "\<forall>s \<in> set sample_states. rot_cor s = 0 \<and> pos_cor s = 0"
    and i: "spline_of_zeros interp (map timestamp sample_states)"
    and e: "Exp 0 = 1"
    and c: "\<forall>k. Suc k < length imu_states \<longrightarrow>
              cancels R (imu_states ! k) (imu_states ! Suc k)
              \<and> cancels R (imu_states ! Suc k) (imu_states ! k)"
  shows "UpdateImuPoses interp Exp R sample_states imu_states = Inr imu_states
       \<and> (\<forall>ss imus sfs.
             Corrector interp Exp R slerp UpdatePose (sample_states, imu_states, surfels)
               = Inr (ss, imus, sfs) \<longrightarrow> imus = imu_states)"
proof -
  let ?n = "length imu_states"
  have "\<forall>k \<in> set [0 ..< ?n]. k < ?n" by simp
  moreover have "idx_ok ?n (- 1) (- 1)" by (simp add: idx_ok_def)
  ultimately obtain f l where
    loop: "for_loop [0 ..< ?n] (correct_imu_state interp Exp sample_states) (imu_states, - 1, - 1)
             = Inr (imu_states, f, l)" and ok: "idx_ok ?n f l"
    using for_loop_zero [where Exp = Exp, OF z i e, of "[0 ..< ?n]" ?n "- 1" "- 1" imu_states]
    by blast
  have u: "UpdateImuPoses interp Exp R sample_states imu_states = Inr imu_states"
  proof (cases "f = - 1")
    case True
    with loop show ?thesis by (simp add: UpdateImuPoses_def)
  next
    case False
    with ok have r: "0 \<le> f" "f < int ?n" "0 \<le> l" "l < int ?n" by (auto simp add: idx_ok_def)
    have h: "fold (update_heading R imu_states) (rev [0 ..< nat f]) imu_states = imu_states"
    proof (rule fold_update_heading_id, rule ballI)
      fix k assume "k \<in> set (rev [0 ..< nat f])"
      with r have "Suc k < ?n" by auto
      with c show "Suc k < ?n \<and> cancels R (imu_states ! k) (imu_states ! Suc k)" by blast
    qed
    have t: "fold (update_tailing R imu_states) [nat (l + 1) ..< ?n] imu_states = imu_states"
    proof (rule fold_update_tailing_id, rule ballI)
      fix k assume "k \<in> set [nat (l + 1) ..< ?n]"
      with r have k: "0 < k" "k < ?n" by auto
      then have "Suc (k - 1) < ?n" "Suc (k - 1) = k" by simp_all
      with c have "cancels R (imu_states ! k) (imu_states ! (k - 1))" by metis
      with k show "0 < k \<and> k < ?n \<and> cancels R (imu_states ! k) (imu_states ! (k - 1))" by blast
    qed
    from loop False h t show ?thesis by (simp add: UpdateImuPoses_def Let_def)
  qed
  then show ?thesis by (auto simp add: Corrector_def split: sum.splits)
qed

text \<open>
  The helpers modelled from the spec meet the assumptions of the theorem: the B-spline of
  zero control values is zero, and the rigid transforms cancel on rotations of unit norm.
\<close>

lemma interp_bspline_zero: "spline_of_zeros interp_bspline ts"
  unfolding spline_of_zeros_def
proof (intro allI impI)
  fix t v
  assume a: "interp_bspline ts (replicate (length ts) 0) t = Some v"
  then have n: "2 \<le> length ts" by (auto simp add: interp_bspline_def split: if_splits)
  have c: "replicate (length ts) (0 :: Vector3d) ! nat (max 0 (min (int (length ts) - 1) k)) = 0" for k
    using n by (intro nth_replicate) auto
  from a show "v = 0"
    by (auto simp add: interp_bspline_def Let_def c split: if_splits)
qed

lemma unit_conjugate: "unit_norm b \<Longrightarrow> unit_norm (conjugate b)"
  by (cases b) simp

lemma times_conjugate_cancel:
  assumes u: "unit_norm b"
  shows "(a * conjugate b) * b = a"
proof -
  obtain aw ax ay az where a: "a = Quat aw ax ay az" by (cases a)
  obtain bw bx "by" bz where b: "b = Quat bw bx by bz" by (cases b)
  from u b have n: "bw * bw + bx * bx + by * by + bz * bz = 1" by simp
  have "aw * (bw * bw + bx * bx + by * by + bz * bz) = aw"
       "ax * (bw * bw + bx * bx + by * by + bz * bz) = ax"
       "ay * (bw * bw + bx * bx + by * by + bz * bz) = ay"
       "az * (bw * bw + bx * bx + by * by + bz * bz) = az"
    using n by simp_all
  then show ?thesis unfolding a b
    by (simp add: algebra_simps)
qed

lemma transformVector_neg: "transformVector q (- v) = - transformVector q v"
  by (cases q; cases v) (simp add: algebra_simps)

lemma transformVector_times:
  assumes "unit_norm a" and "unit_norm b"
  shows "transformVector (a * b) v = transformVector a (transformVector b v)"
proof -
  obtain aw ax ay az where a: "a = Quat aw ax ay az" by (cases a)
  obtain bw bx "by" bz where b: "b = Quat bw bx by bz" by (cases b)
  obtain x y z where v: "v = Vec3 x y z" by (cases v)
  from assms a b have na: "aw * aw + ax * ax + ay * ay + az * az = 1"
    and nb: "bw * bw + bx * bx + by * by + bz * bz = 1" by simp_all
  show ?thesis unfolding a b v
    apply (simp add: Let_def)
    using na nb apply algebra+
    done
qed

lemma rigid_pair_cancels:
  assumes "unit_norm (i_rot a)" and "unit_norm (i_rot b)"
  shows "cancels rigid_pair a b"
proof -
  have r: "(i_rot a * conjugate (i_rot b)) * i_rot b = i_rot a"
    using assms(2) by (rule times_conjugate_cancel)
  have "transformVector (i_rot a * conjugate (i_rot b)) (i_pos b)
          = transformVector (i_rot a) (transformVector (conjugate (i_rot b)) (i_pos b))"
    using assms by (simp add: transformVector_times unit_conjugate)
  then have t: "transformVector (i_rot a * conjugate (i_rot b)) (i_pos b)
          + (transformVector (i_rot a) (- transformVector (conjugate (i_rot b)) (i_pos b)) + i_pos a)
          = i_pos a"
    by (simp add: transformVector_neg)
  from r t show ?thesis
    by (simp add: cancels_def rigid_pair_def Let_def)
qed

text \<open>
  In the sample window the knots are at 1 and 2 and the IMU states at 0, 1, 2, 3, with
  rotations of unit norm: the first loop corrects the states 1 and 2, the second rebuilds
  state 0 and the third state 3.
\<close>

lemma imus4_corrected_indices:
  "for_loop [0 ..< 4] (correct_imu_state interp_bspline Exp_first_order [sample_at 1, sample_at 2])
     (imus4, - 1, - 1) = Inr (imus4, 1, 2)"
  by (simp add: correct_imu_state_def GetCorr_def interp_bspline_def sample_at_def imus4_def
      imu_state_at_def upt_rec numeral_eq_Suc zero_Vector3d_def one_Quaterniond_def Let_def)

lemma imus4_unit_norm: "\<forall>a \<in> set imus4. unit_norm (i_rot a)"
  by (simp add: imus4_def imu_state_at_def one_Quaterniond_def)

theorem UpdateImuPoses_zero_corrections_witness:
  "UpdateImuPoses interp_bspline Exp_first_order rigid_pair [sample_at 1, sample_at 2] imus4 = Inr imus4
   \<and> Corrector interp_bspline Exp_first_order rigid_pair lerp keep_pose
         ([sample_at 1, sample_at 2], imus4, [surfel_at (3 / 2)])
       = Inr ([sample_at 1, sample_at 2], imus4, [surfel_at (3 / 2)])"
proof -
  have z: "\<forall>s \<in> set [sample_at 1, sample_at 2]. rot_cor s = 0 \<and> pos_cor s = 0"
    by (simp add: sample_at_def)
  have i: "spline_of_zeros interp_bspline (map timestamp [sample_at 1, sample_at 2])"
    by (rule interp_bspline_zero)
  have e: "Exp_first_order 0 = 1" by (simp add: zero_Vector3d_def one_Quaterniond_def)
  have c: "\<forall>k. Suc k < length imus4 \<longrightarrow>
          cancels rigid_pair (imus4 ! k) (imus4 ! Suc k)
          \<and> cancels rigid_pair (imus4 ! Suc k) (imus4 ! k)"
  proof (intro allI impI)
    fix k assume k: "Suc k < length imus4"
    then have "imus4 ! k \<in> set imus4" "imus4 ! Suc k \<in> set imus4" by simp_all
    with imus4_unit_norm have "unit_norm (i_rot (imus4 ! k))" "unit_norm (i_rot (imus4 ! Suc k))"
      by blast+
    then show "cancels rigid_pair (imus4 ! k) (imus4 ! Suc k)
          \<and> cancels rigid_pair (imus4 ! Suc k) (imus4 ! k)"
      by (simp add: rigid_pair_cancels)
  qed
  from UpdateImuPoses_zero_corrections [where Exp = Exp_first_order and interp = interp_bspline
      and R = rigid_pair, OF z i e c]
  have u: "UpdateImuPoses interp_bspline Exp_first_order rigid_pair [sample_at 1, sample_at 2] imus4
             = Inr imus4"
    by blast
  have s: "UpdateSurfelPoses lerp keep_pose imus4 [surfel_at (3 / 2)] = Inr [surfel_at (3 / 2)]"
    by (simp add: lower_bound_def imus4_def imu_state_at_def keep_pose_def surfel_at_def)
  have p: "UpdateSamplePoses Exp_first_order [sample_at 1, sample_at 2] = [sample_at 1, sample_at 2]"
    by (simp add: UpdateSamplePoses_def update_sample_pose_def sample_at_def zero_Vector3d_def)
  from u s p show ?thesis by (simp add: Corrector_def)
qed

section \<open>Window trimmer\<close>

lemma shrink_samples_Inr:
  "shrink_samples wd ss = Inr ss' \<Longrightarrow>
     ss' \<noteq> [] \<and> timestamp (last ss') - timestamp (hd ss') \<le> wd \<and> (\<exists>n. ss' = drop n ss)"
proof (induction ss)
  case Nil
  then show ?case by simp
next
  case (Cons s ss)
  show ?case
  proof (cases "timestamp (last (s # ss)) - timestamp s > wd")
    case True
    with Cons.prems have "shrink_samples wd ss = Inr ss'" by simp
    from Cons.IH [OF this] obtain n where
      "ss' \<noteq> []" "timestamp (last ss') - timestamp (hd ss') \<le> wd" "ss' = drop n ss"
      by blast
    moreover have "drop n ss = drop (Suc n) (s # ss)" by simp
    ultimately show ?thesis by metis
  next
    case False
    with Cons.prems have "ss' = s # ss" by simp
    moreover have "s # ss = drop 0 (s # ss)" by simp
    ultimately show ?thesis using False by (metis list.sel(1) list.distinct(1) not_less)
  qed
qed

lemma shrink_imus_Inr:
  "shrink_imus t is = Inr is' \<Longrightarrow> is' \<noteq> [] \<and> t \<le> i_timestamp (hd is')"
  by (induction "is") (auto split: if_splits)

lemma shrink_surfels_Inr:
  "shrink_surfels t us = Inr us' \<Longrightarrow> us' \<noteq> [] \<and> t \<le> s_timestamp (hd us')"
  by (induction us) (auto split: if_splits)

text \<open>
  Claim C2, as stated, fails: when the sample span fits the window the function returns at
  once and trims nothing. With one sample state at 5, one IMU state at 3, one surfel at 4
  and a window duration of 1 (the sample deque non-empty, every deque sorted) it returns
  the three deques as they are, and the front sample is later than the front IMU state.
\<close>

theorem ShrinkToFit_early_return_unordered:
  "[sample_at 5] \<noteq> [] \<and> sorted (map timestamp [sample_at 5])
   \<and> sorted (map i_timestamp [imu_state_at 3 0 1]) \<and> sorted (map s_timestamp [surfel_at 4])
   \<and> ShrinkToFit [sample_at 5] [imu_state_at 3 0 1] [surfel_at 4] 1
        = Inr ([sample_at 5], [imu_state_at 3 0 1], [surfel_at 4])
   \<and> \<not> timestamp (hd [sample_at 5]) \<le> i_timestamp (hd [imu_state_at 3 0 1])"
  by (simp add: ShrinkToFit_def sample_at_def imu_state_at_def)

text \<open>
  Claim C2, amended. Let the sample deque be non-empty and let either the sample span exceed
  the window duration on entry or the fronts be ordered on entry already (IMU and surfel
  deques non-empty, front sample not later than front IMU state, front IMU state not later
  than front surfel). Then, when \<^verbatim>\<open>ShrinkToFit\<close> returns, the three deques are non-empty,
  the front sample is not later than the front IMU state, the front IMU state is not later
  than the front surfel, and the sample span is at most the window duration.
\<close>

theorem ShrinkToFit_keeps_front_order:
  assumes ret: "ShrinkToFit sample_states imu_states surfels window_duration = Inr (ss, is, us)"
    and ne: "sample_states \<noteq> []"
    and pre: "timestamp (last sample_states) - timestamp (hd sample_states) > window_duration
              \<or> (imu_states \<noteq> [] \<and> surfels \<noteq> []
                  \<and> timestamp (hd sample_states) \<le> i_timestamp (hd imu_states)
                  \<and> i_timestamp (hd imu_states) \<le> s_timestamp (hd surfels))"
  shows "ss \<noteq> [] \<and> is \<noteq> [] \<and> us \<noteq> []
       \<and> timestamp (hd ss) \<le> i_timestamp (hd is)
       \<and> i_timestamp (hd is) \<le> s_timestamp (hd us)
       \<and> timestamp (last ss) - timestamp (hd ss) \<le> window_duration"
proof (cases "timestamp (last sample_states) - timestamp (hd sample_states) \<le> window_duration")
  case True
  with ret ne have "ss = sample_states" "is = imu_states" "us = surfels"
    by (simp_all add: ShrinkToFit_def)
  with True pre ne show ?thesis by auto
next
  case False
  with ret ne obtain ss1 is1 us1 where
    s: "shrink_samples window_duration sample_states = Inr ss1" and
    i: "shrink_imus (timestamp (hd ss1)) imu_states = Inr is1" and
    u: "shrink_surfels (i_timestamp (hd is1)) surfels = Inr us1" and
    eq: "ss = ss1" "is = is1" "us = us1"
    by (auto simp add: ShrinkToFit_def split: sum.splits)
  from shrink_samples_Inr [OF s] shrink_imus_Inr [OF i] shrink_surfels_Inr [OF u]
  show ?thesis unfolding eq by blast
qed

text \<open>A window of span 3 trimmed to a duration of 2.\<close>

theorem ShrinkToFit_keeps_front_order_witness:
  "ShrinkToFit [sample_at 0, sample_at 1, sample_at 2, sample_at 3]
      [imu_state_at 0 0 1, imu_state_at 1 0 1, imu_state_at 2 0 1, imu_state_at 3 0 1]
      [surfel_at 1, surfel_at 3] 2
     = Inr ([sample_at 1, sample_at 2, sample_at 3],
            [imu_state_at 1 0 1, imu_state_at 2 0 1, imu_state_at 3 0 1],
            [surfel_at 1, surfel_at 3])
   \<and> timestamp (hd [sample_at 1, sample_at 2, sample_at 3])
        \<le> i_timestamp (hd [imu_state_at 1 0 1, imu_state_at 2 0 1, imu_state_at 3 0 1])
   \<and> i_timestamp (hd [imu_state_at 1 0 1, imu_state_at 2 0 1, imu_state_at 3 0 1])
        \<le> s_timestamp (hd [surfel_at 1, surfel_at 3])
   \<and> timestamp (last [sample_at 1, sample_at 2, sample_at 3])
        - timestamp (hd [sample_at 1, sample_at 2, sample_at 3]) \<le> 2"
proof -
  have r: "ShrinkToFit [sample_at 0, sample_at 1, sample_at 2, sample_at 3]
      [imu_state_at 0 0 1, imu_state_at 1 0 1, imu_state_at 2 0 1, imu_state_at 3 0 1]
      [surfel_at 1, surfel_at 3] 2
     = Inr ([sample_at 1, sample_at 2, sample_at 3],
            [imu_state_at 1 0 1, imu_state_at 2 0 1, imu_state_at 3 0 1],
            [surfel_at 1, surfel_at 3])"
    by (simp add: ShrinkToFit_def sample_at_def imu_state_at_def surfel_at_def)
  from ShrinkToFit_keeps_front_order [OF r] r show ?thesis
    by (simp add: sample_at_def)
qed

end
